theory Spec2Isabelle
  imports Complex_Main "HOL-Library.Multiset"
begin

section \<open>Go strings\<close>

text \<open>
  A Go string is a sequence of bytes; \<^typ>\<open>string\<close> is a list of 8-bit characters, so the
  two agree. The functions of package \<^verbatim>\<open>strings\<close> that the analyzer calls are written out
  here with Go's argument order.
\<close>

fun HasPrefix :: "string \<Rightarrow> string \<Rightarrow> bool" where
  "HasPrefix s [] = True"
| "HasPrefix [] (p # ps) = False"
| "HasPrefix (c # cs) (p # ps) = (c = p \<and> HasPrefix cs ps)"

fun Contains :: "string \<Rightarrow> string \<Rightarrow> bool" where
  "Contains [] substr = (substr = [])"
| "Contains (c # cs) substr = (HasPrefix (c # cs) substr \<or> Contains cs substr)"

definition HasSuffix :: "string \<Rightarrow> string \<Rightarrow> bool" where
  "HasSuffix s suffix = HasPrefix (rev s) (rev suffix)"

definition TrimPrefix :: "string \<Rightarrow> string \<Rightarrow> string" where
  "TrimPrefix s p = (if HasPrefix s p then drop (length p) s else s)"


definition ContainsAny :: "string \<Rightarrow> string \<Rightarrow> bool" where
  "ContainsAny s chars = list_ex (\<lambda>c. c \<in> set chars) s"

text \<open>
  \<^verbatim>\<open>unicode.IsSpace\<close> holds of the code points U+0009..U+000D, U+0020, U+0085, U+00A0,
  U+1680, U+2000..U+200A, U+2028, U+2029, U+202F, U+205F and U+3000. \<open>whiteSpace\<close> lists
  their UTF-8 encodings. No encoding starts with a continuation byte and none is a prefix
  of another, so a white-space rune is decoded at a position of a string exactly when one
  of these byte sequences starts there.
\<close>

definition whiteSpace :: "string list" where
  "whiteSpace =
     [[CHR 0x09], [CHR 0x0A], [CHR 0x0B], [CHR 0x0C], [CHR 0x0D], [CHR 0x20],
      [CHR 0xC2, CHR 0x85], [CHR 0xC2, CHR 0xA0],
      [CHR 0xE1, CHR 0x9A, CHR 0x80],
      [CHR 0xE2, CHR 0x80, CHR 0x80], [CHR 0xE2, CHR 0x80, CHR 0x81],
      [CHR 0xE2, CHR 0x80, CHR 0x82], [CHR 0xE2, CHR 0x80, CHR 0x83],
      [CHR 0xE2, CHR 0x80, CHR 0x84], [CHR 0xE2, CHR 0x80, CHR 0x85],
      [CHR 0xE2, CHR 0x80, CHR 0x86], [CHR 0xE2, CHR 0x80, CHR 0x87],
      [CHR 0xE2, CHR 0x80, CHR 0x88], [CHR 0xE2, CHR 0x80, CHR 0x89],
      [CHR 0xE2, CHR 0x80, CHR 0x8A],
      [CHR 0xE2, CHR 0x80, CHR 0xA8], [CHR 0xE2, CHR 0x80, CHR 0xA9],
      [CHR 0xE2, CHR 0x80, CHR 0xAF], [CHR 0xE2, CHR 0x81, CHR 0x9F],
      [CHR 0xE3, CHR 0x80, CHR 0x80]]"

text \<open>The width in bytes of the white-space rune that starts \<open>s\<close>, or 0 when none does.\<close>

definition spaceWidth :: "string \<Rightarrow> nat" where
  "spaceWidth s = (case find (HasPrefix s) whiteSpace of None \<Rightarrow> 0 | Some w \<Rightarrow> length w)"

text \<open>A white-space rune occurs somewhere in \<open>s\<close>.\<close>

fun hasSpace :: "string \<Rightarrow> bool" where
  "hasSpace [] = False"
| "hasSpace (c # cs) = (0 < spaceWidth (c # cs) \<or> hasSpace cs)"

text \<open>
  \<^verbatim>\<open>strings.Fields\<close>: the maximal runs of bytes between white-space runes, none of them
  empty. \<open>cur\<close> is the field being collected.
\<close>

function FieldsFunc :: "string \<Rightarrow> string \<Rightarrow> string list" where
  "FieldsFunc cur [] = (if cur = [] then [] else [cur])"
| "FieldsFunc cur (c # cs) =
     (let w = spaceWidth (c # cs) in
      if w = 0 then FieldsFunc (cur @ [c]) cs
      else (if cur = [] then [] else [cur]) @ FieldsFunc [] (drop w (c # cs)))"
  by pat_completeness auto
termination
  by (relation "measure (\<lambda>(cur, s). length s)") auto

definition Fields :: "string \<Rightarrow> string list" where
  "Fields s = FieldsFunc [] s"

text \<open>\<^verbatim>\<open>strings.TrimSpace\<close>: white-space runes are cut from both ends.\<close>

function TrimLeftSpace :: "string \<Rightarrow> string" where
  "TrimLeftSpace [] = []"
| "TrimLeftSpace (c # cs) =
     (let w = spaceWidth (c # cs) in
      if w = 0 then c # cs else TrimLeftSpace (drop w (c # cs)))"
  by pat_completeness auto
termination
  by (relation "measure length") auto

definition endsWithSpace :: "string \<Rightarrow> string option" where
  "endsWithSpace s = find (HasSuffix s) whiteSpace"

function TrimRightSpace :: "string \<Rightarrow> string" where
  "TrimRightSpace [] = []"
| "TrimRightSpace (c # cs) =
     (case endsWithSpace (c # cs) of
        None \<Rightarrow> c # cs
      | Some w \<Rightarrow>
          if w = [] then c # cs
          else TrimRightSpace (take (length (c # cs) - length w) (c # cs)))"
  by pat_completeness auto
termination
  by (relation "measure length") auto

definition TrimSpace :: "string \<Rightarrow> string" where
  "TrimSpace s = TrimRightSpace (TrimLeftSpace s)"

text \<open>\<^verbatim>\<open>strings.Trim(s, cutset)\<close> for a cutset of ASCII bytes.\<close>

definition Trim :: "string \<Rightarrow> string \<Rightarrow> string" where
  "Trim s cutset =
     rev (dropWhile (\<lambda>c. c \<in> set cutset) (rev (dropWhile (\<lambda>c. c \<in> set cutset) s)))"

text \<open>
  \<^verbatim>\<open>strings.SplitN(s, sep, 2)\<close> for a one-byte separator: \<open>[s]\<close> when the separator does
  not occur, else the text before its first occurrence and the text after it.
\<close>

definition SplitN2 :: "string \<Rightarrow> char \<Rightarrow> string list" where
  "SplitN2 s sep =
     (if sep \<in> set s
      then [takeWhile (\<lambda>c. c \<noteq> sep) s, tl (dropWhile (\<lambda>c. c \<noteq> sep) s)]
      else [s])"

text \<open>
  \<^verbatim>\<open>strings.Title\<close> on ASCII text: a lower-case letter that starts a word (it follows the
  start of the string or a byte that is not a letter, a digit or an underscore) is put in
  upper case. The analyzer only calls it on a key of its table of tools, all ASCII.
\<close>

definition isWordByte :: "char \<Rightarrow> bool" where
  "isWordByte c =
     (let n = of_char c :: nat
      in (48 \<le> n \<and> n \<le> 57) \<or> (65 \<le> n \<and> n \<le> 90) \<or> (97 \<le> n \<and> n \<le> 122) \<or> n = 95)"

definition toUpperASCII :: "char \<Rightarrow> char" where
  "toUpperASCII c =
     (let n = of_char c :: nat in if 97 \<le> n \<and> n \<le> 122 then char_of (n - 32) else c)"

fun TitleFrom :: "bool \<Rightarrow> string \<Rightarrow> string" where
  "TitleFrom atStart [] = []"
| "TitleFrom atStart (c # cs) =
     (if atStart then toUpperASCII c else c) # TitleFrom (\<not> isWordByte c) cs"

definition Title :: "string \<Rightarrow> string" where
  "Title s = TitleFrom True s"

section \<open>Go maps\<close>

text \<open>
  A Go map is a finite partial function. Reading a missing key gives the zero value, and
  \<^verbatim>\<open>m[k]++\<close> therefore starts a missing key at 1. Counters are only ever incremented from 0,
  so they are natural numbers. \<^verbatim>\<open>range\<close> visits the keys of a map in an order the runtime
  chooses afresh each time; a loop whose result depends on that order takes the order as
  an argument, a list of keys, and visits the keys of the list that the map holds.
\<close>

definition valueAt :: "('k \<rightharpoonup> nat) \<Rightarrow> 'k \<Rightarrow> nat" where
  "valueAt m k = (case m k of None \<Rightarrow> 0 | Some c \<Rightarrow> c)"

definition incr :: "('k \<rightharpoonup> nat) \<Rightarrow> 'k \<Rightarrow> ('k \<rightharpoonup> nat)" where
  "incr m k = m(k \<mapsto> valueAt m k + 1)"

definition rangeMap :: "'k list \<Rightarrow> ('k \<rightharpoonup> 'v) \<Rightarrow> ('k \<times> 'v) list" where
  "rangeMap order m = List.map_filter (\<lambda>k. map_option (Pair k) (m k)) order"

text \<open>
  An order in which \<^verbatim>\<open>range\<close> can visit \<open>m\<close>: a list without repetition that holds every
  key of \<open>m\<close>. What it holds beyond the keys of \<open>m\<close> is passed over.
\<close>

definition enumerates :: "'k list \<Rightarrow> ('k \<rightharpoonup> 'v) \<Rightarrow> bool" where
  "enumerates order m = (distinct order \<and> dom m \<subseteq> set order)"

section \<open>The data model (analyzer.go)\<close>

text \<open>
  A \<^verbatim>\<open>time.Time\<close> is the number of seconds of local time since some midnight; only its hour
  of the day is ever read. A \<^verbatim>\<open>float64\<close> score is the exact quotient of two counters, a
  real number: the counters are far below \<open>2\<^sup>5\<^sup>3\<close>, so their conversion is exact, and the
  rounding of the one division keeps a quotient inside every interval whose ends are
  floating-point numbers. The fields \<^verbatim>\<open>WorkPatterns\<close> and \<^verbatim>\<open>ToolUsage\<close> of
  \<^verbatim>\<open>DetailedInsights\<close> are \<open>Patterns\<close> and \<open>Usage\<close> here, and the fields of a
  \<^verbatim>\<open>TimelineEntry\<close> carry the prefix \<open>Entry\<close>, since the names are taken.
\<close>

type_synonym Time = nat

definition Hour :: "Time \<Rightarrow> int" where
  "Hour t = int ((t div 3600) mod 24)"

record CommandEntry =
  Command :: string
  Timestamp :: Time
  Count :: int
  Categories :: "string list"

record TechProfile =
  PrimaryRole :: string
  SecondarySkills :: "string list"
  TechStack :: "string list"
  Proficiency :: "string \<rightharpoonup> real"

record WorkPatterns =
  PeakHours :: "int list"
  CommonWorkflows :: "string list"
  Productivity :: "string \<rightharpoonup> real"

record ToolUsage =
  Editors :: "string \<rightharpoonup> nat"
  Languages :: "string \<rightharpoonup> nat"
  BuildTools :: "string \<rightharpoonup> nat"

record DetailedInsights =
  TechnicalProfile :: TechProfile
  Patterns :: WorkPatterns
  Usage :: ToolUsage

record ConfigInfo =
  Path :: string
  Modified :: Time
  Content :: string

record PluginInfo =
  Name :: string
  Source :: string
  LastUpdated :: Time

record ShellConfig =
  ConfigFiles :: "string \<rightharpoonup> ConfigInfo"
  Plugins :: "PluginInfo list"
  Aliases :: "string \<rightharpoonup> string"
  Environment :: "string \<rightharpoonup> string"

record ShellData =
  Histories :: "string \<rightharpoonup> CommandEntry list"
  CommonCmds :: "string \<rightharpoonup> nat"
  TimePatterns :: "string \<rightharpoonup> nat"
  Insights :: DetailedInsights
  ShellConfigs :: "string \<rightharpoonup> ShellConfig"

text \<open>\<^verbatim>\<open>types.TimelineEntry\<close> (types.go).\<close>

record TimelineEntry =
  EntryTimestamp :: Time
  EntryCommand :: string
  Shell :: string

definition InitShellData :: ShellData where
  "InitShellData =
     \<lparr>Histories = Map.empty, CommonCmds = Map.empty, TimePatterns = Map.empty,
      Insights =
        \<lparr>TechnicalProfile =
           \<lparr>PrimaryRole = [], SecondarySkills = [], TechStack = [], Proficiency = Map.empty\<rparr>,
         Patterns = \<lparr>PeakHours = [], CommonWorkflows = [], Productivity = Map.empty\<rparr>,
         Usage = \<lparr>Editors = Map.empty, Languages = Map.empty, BuildTools = Map.empty\<rparr>\<rparr>,
      ShellConfigs = Map.empty\<rparr>"

section \<open>The host\<close>

text \<open>
  What a run of the analyzer reads from the machine it runs on, and the choices the Go
  runtime makes for it.
\<close>

record FileInfo =
  IsDir :: bool
  ModTime :: Time

record DirEntry =
  EntryName :: string
  EntryIsDir :: bool
  EntryModTime :: Time

record Host =
  UserHomeDir :: "string option"
    \<comment> \<open>\<^verbatim>\<open>os.UserHomeDir\<close>; \<open>None\<close> when it returns an error\<close>
  ReadFile :: "string \<rightharpoonup> string"
    \<comment> \<open>the content \<^verbatim>\<open>os.Open\<close> and \<^verbatim>\<open>os.ReadFile\<close> read at a path; \<open>None\<close> on an error\<close>
  Stat :: "string \<rightharpoonup> FileInfo"
  ReadDir :: "string \<rightharpoonup> DirEntry list"
  Join :: "string \<Rightarrow> string \<Rightarrow> string"
    \<comment> \<open>\<^verbatim>\<open>filepath.Join\<close> of two elements\<close>
  Now :: "string \<Rightarrow> nat \<Rightarrow> Time"
    \<comment> \<open>\<^verbatim>\<open>time.Now()\<close> as read while the line of that index of the file at that path
        is handled\<close>
  LookPath :: "string \<Rightarrow> bool"
    \<comment> \<open>\<^verbatim>\<open>exec.LookPath\<close> finds the tool\<close>
  installedLangs :: "string list"
    \<comment> \<open>the keys of the map \<^verbatim>\<open>getInstalledLanguages\<close> returns, in the order
        \<^verbatim>\<open>range\<close> visits them\<close>
  categoryOrder :: "string \<Rightarrow> nat \<Rightarrow> string list"
    \<comment> \<open>the order in which \<^verbatim>\<open>categorizeCommand\<close> visits its categories, for that line
        of that file\<close>
  usageOrder :: "string list"
    \<comment> \<open>the order in which \<^verbatim>\<open>getMostUsed\<close> visits the keys of its map\<close>
  hourOrder :: "int list"
    \<comment> \<open>the order in which \<^verbatim>\<open>getPeakHours\<close> visits the hours\<close>
  shellOrder :: "string list"
    \<comment> \<open>the order in which the shells are visited\<close>
  pdqsort :: "(int \<times> nat) list \<Rightarrow> (int \<times> nat) list"
    \<comment> \<open>what \<^verbatim>\<open>sort.Slice\<close> makes of a slice of more than 12 hour counts\<close>

section \<open>Reading a history file (shell\_analysis.go)\<close>

text \<open>
  \<^verbatim>\<open>bufio.Scanner\<close> with its default split function \<^verbatim>\<open>ScanLines\<close>: the input is cut at
  every line feed, a last line without one is a line unless it is empty, and one carriage
  return is dropped from the end of each line. A line of \<^verbatim>\<open>MaxScanTokenSize\<close> bytes or more
  does not fit the scanner's buffer: the scan stops before it with \<^verbatim>\<open>ErrTooLong\<close>.
\<close>

datatype error = ErrOpen | ErrTooLong

fun splitLines :: "string \<Rightarrow> string \<Rightarrow> string list" where
  "splitLines cur [] = (if cur = [] then [] else [cur])"
| "splitLines cur (c # cs) =
     (if c = CHR 0x0A then cur # splitLines [] cs else splitLines (cur @ [c]) cs)"

definition dropCR :: "string \<Rightarrow> string" where
  "dropCR l = (if l \<noteq> [] \<and> last l = CHR 0x0D then butlast l else l)"

definition MaxScanTokenSize :: nat where
  "MaxScanTokenSize = 64 * 1024"

definition Scan :: "string \<Rightarrow> string list \<times> error option" where
  "Scan content =
     (let raw = splitLines [] content;
          fits = (\<lambda>l. length l < MaxScanTokenSize)
      in (map dropCR (takeWhile fits raw),
          if list_all fits raw then None else Some ErrTooLong))"

definition cleanHistoryLine :: "string \<Rightarrow> string" where
  "cleanHistoryLine line =
     (let parts = Fields line in if length parts > 0 then parts ! (length parts - 1) else [])"

definition categoryPatterns :: "string \<rightharpoonup> string list" where
  "categoryPatterns =
     [''development'' \<mapsto> [''git'', ''docker'', ''npm'', ''go'', ''python''],
      ''system'' \<mapsto> [''sudo'', ''systemctl'', ''ps'', ''top''],
      ''file'' \<mapsto> [''ls'', ''cd'', ''cp'', ''mv'', ''rm'']]"

text \<open>
  The inner loop appends the category at the first pattern that is a prefix of the command
  and breaks; the outer loop goes on to the next category.
\<close>

fun categorizeLoop :: "string \<Rightarrow> (string \<times> string list) list \<Rightarrow> string list \<Rightarrow> string list" where
  "categorizeLoop cmd [] categories = categories"
| "categorizeLoop cmd ((category, patterns) # rest) categories =
     categorizeLoop cmd rest
       (if list_ex (HasPrefix cmd) patterns then categories @ [category] else categories)"

definition categorizeCommand :: "string list \<Rightarrow> string \<Rightarrow> string list" where
  "categorizeCommand order cmd = categorizeLoop cmd (rangeMap order categoryPatterns) []"

text \<open>The loop of \<^verbatim>\<open>readHistory\<close> over the scanned lines; \<open>i\<close> is the index of the line.\<close>

fun readLines ::
  "Host \<Rightarrow> string \<Rightarrow> nat \<Rightarrow> string list \<Rightarrow> CommandEntry list \<Rightarrow> CommandEntry list" where
  "readLines h path i [] entries = entries"
| "readLines h path i (line # rest) entries =
     (let cmd = cleanHistoryLine line
      in readLines h path (i + 1) rest
           (if cmd \<noteq> []
            then entries @
              [\<lparr>Command = cmd, Timestamp = Now h path i, Count = 0,
                Categories = categorizeCommand (categoryOrder h path i) cmd\<rparr>]
            else entries))"

definition readHistory :: "Host \<Rightarrow> string \<Rightarrow> CommandEntry list \<times> error option" where
  "readHistory h path =
     (case ReadFile h path of
        None \<Rightarrow> ([], Some ErrOpen)
      | Some content \<Rightarrow> (let (lines, err) = Scan content in (readLines h path 0 lines [], err)))"

section \<open>Analysing the commands of one shell (shell\_analysis.go)\<close>

definition managers :: "string \<rightharpoonup> string" where
  "managers =
     [''python'' \<mapsto> ''pip'', ''node'' \<mapsto> ''npm'', ''go'' \<mapsto> ''go get'',
      ''rust'' \<mapsto> ''cargo'', ''ruby'' \<mapsto> ''gem'', ''php'' \<mapsto> ''composer'']"

definition getPackageManager :: "string \<Rightarrow> string" where
  "getPackageManager lang = (case managers lang of None \<Rightarrow> [] | Some m \<Rightarrow> m)"

definition checkToolInstalled :: "Host \<Rightarrow> string \<Rightarrow> bool" where
  "checkToolInstalled h tool = LookPath h tool"

text \<open>
  The four regular expressions of \<^verbatim>\<open>analyzeCommandPattern\<close> are alternations of literal
  texts, and \<^verbatim>\<open>MatchString\<close> looks for a match anywhere in the command: it holds when one of
  the alternatives occurs in it.
\<close>

definition patternMap :: "(string \<times> string list) list" where
  "patternMap =
     [(''git_workflow'', [''git commit'', ''git push'', ''git pull'', ''git merge'']),
      (''build'', [''make'', ''build'', ''compile'']),
      (''deploy'', [''deploy'', ''kubectl'', ''docker'']),
      (''test'', [''test'', ''spec'', ''pytest''])]"

definition MatchString :: "string list \<Rightarrow> string \<Rightarrow> bool" where
  "MatchString alternatives s = list_ex (Contains s) alternatives"

fun analyzeCommandPatternLoop ::
  "string \<Rightarrow> (string \<times> string list) list \<Rightarrow> (string \<rightharpoonup> nat) \<Rightarrow> (string \<rightharpoonup> nat)" where
  "analyzeCommandPatternLoop cmd [] patterns = patterns"
| "analyzeCommandPatternLoop cmd ((pattern, regex) # rest) patterns =
     analyzeCommandPatternLoop cmd rest
       (if MatchString regex cmd then incr patterns pattern else patterns)"

definition analyzeCommandPattern :: "string \<Rightarrow> (string \<rightharpoonup> nat) \<Rightarrow> (string \<rightharpoonup> nat)" where
  "analyzeCommandPattern cmd patterns = analyzeCommandPatternLoop cmd patternMap patterns"

text \<open>The loop over the installed languages, and the loop over a list of tools.\<close>

fun countLangs :: "string list \<Rightarrow> string \<Rightarrow> (string \<rightharpoonup> nat) \<Rightarrow> (string \<rightharpoonup> nat)" where
  "countLangs [] cmd usage = usage"
| "countLangs (lang # rest) cmd usage =
     countLangs rest cmd
       (if Contains cmd lang \<or> Contains cmd (getPackageManager lang)
        then incr usage lang else usage)"

fun countTools :: "Host \<Rightarrow> string list \<Rightarrow> string \<Rightarrow> (string \<rightharpoonup> nat) \<Rightarrow> (string \<rightharpoonup> nat)" where
  "countTools h [] cmd usage = usage"
| "countTools h (tool # rest) cmd usage =
     countTools h rest cmd
       (if HasPrefix cmd tool \<and> checkToolInstalled h tool then incr usage tool else usage)"

definition devTools :: "string list" where
  "devTools = [''git'', ''docker'', ''kubectl'', ''terraform'', ''ansible'', ''make'']"

record Tally =
  langUsage :: "string \<rightharpoonup> nat"
  toolUsage :: "string \<rightharpoonup> nat"
  timeOfDay :: "int \<rightharpoonup> nat"
  commandPatterns :: "string \<rightharpoonup> nat"

definition emptyTally :: Tally where
  "emptyTally =
     \<lparr>langUsage = Map.empty, toolUsage = Map.empty, timeOfDay = Map.empty,
      commandPatterns = Map.empty\<rparr>"

fun analyzeEntries :: "Host \<Rightarrow> CommandEntry list \<Rightarrow> Tally \<Rightarrow> Tally" where
  "analyzeEntries h [] t = t"
| "analyzeEntries h (entry # rest) t =
     (let cmd = Command entry;
          hour = Hour (Timestamp entry)
      in analyzeEntries h rest
           \<lparr>langUsage = countLangs (installedLangs h) cmd (langUsage t),
            toolUsage = countTools h devTools cmd (toolUsage t),
            timeOfDay = incr (timeOfDay t) hour,
            commandPatterns = analyzeCommandPattern cmd (commandPatterns t)\<rparr>)"

fun getMostUsedLoop :: "(string \<times> nat) list \<Rightarrow> string \<times> nat \<Rightarrow> string \<times> nat" where
  "getMostUsedLoop [] (maxKey, maxVal) = (maxKey, maxVal)"
| "getMostUsedLoop ((k, v) # rest) (maxKey, maxVal) =
     (if v > maxVal then getMostUsedLoop rest (k, v) else getMostUsedLoop rest (maxKey, maxVal))"

definition getMostUsed :: "(string \<times> nat) list \<Rightarrow> string \<times> bool" where
  "getMostUsed usage = (let (maxKey, maxVal) = getMostUsedLoop usage ([], 0) in (maxKey, maxVal > 0))"

text \<open>
  \<^verbatim>\<open>sort.Slice\<close> (Go 1.19 and later) sorts a slice of at most 12 elements by insertion:
  each element in turn is swapped to the left while it is less than its left neighbour.
  \<open>siftLeft\<close> is that inner loop, on the elements to the left of \<open>x\<close> with the nearest
  first. A longer slice goes through pattern-defeating quicksort, which is left to the
  host; Go does not promise a stable sort.
\<close>

fun siftLeft :: "('a \<Rightarrow> 'a \<Rightarrow> bool) \<Rightarrow> 'a \<Rightarrow> 'a list \<Rightarrow> 'a list" where
  "siftLeft lessFn x [] = [x]"
| "siftLeft lessFn x (y # ys) = (if lessFn x y then y # siftLeft lessFn x ys else x # y # ys)"

fun insertionLoop :: "('a \<Rightarrow> 'a \<Rightarrow> bool) \<Rightarrow> 'a list \<Rightarrow> 'a list \<Rightarrow> 'a list" where
  "insertionLoop lessFn left [] = rev left"
| "insertionLoop lessFn left (x # rest) = insertionLoop lessFn (siftLeft lessFn x left) rest"

definition insertionSortLessFunc :: "('a \<Rightarrow> 'a \<Rightarrow> bool) \<Rightarrow> 'a list \<Rightarrow> 'a list" where
  "insertionSortLessFunc lessFn data = insertionLoop lessFn [] data"

definition sortSlice :: "('a list \<Rightarrow> 'a list) \<Rightarrow> ('a \<Rightarrow> 'a \<Rightarrow> bool) \<Rightarrow> 'a list \<Rightarrow> 'a list" where
  "sortSlice pdq lessFn data =
     (if length data \<le> 12 then insertionSortLessFunc lessFn data else pdq data)"

text \<open>An \<^verbatim>\<open>hourCount\<close> is the pair of an hour and its count.\<close>

definition moreFrequent :: "int \<times> nat \<Rightarrow> int \<times> nat \<Rightarrow> bool" where
  "moreFrequent a b = (snd a > snd b)"

definition getPeakHours :: "Host \<Rightarrow> (int \<rightharpoonup> nat) \<Rightarrow> int list" where
  "getPeakHours h tod =
     (let hours = rangeMap (hourOrder h) tod;
          sorted = sortSlice (pdqsort h) moreFrequent hours
      in map fst (take 3 sorted))"

fun uniqueCommandsLoop :: "CommandEntry list \<Rightarrow> string set \<Rightarrow> string set" where
  "uniqueCommandsLoop [] uniqueCommands = uniqueCommands"
| "uniqueCommandsLoop (entry # rest) uniqueCommands =
     uniqueCommandsLoop rest (insert (Command entry) uniqueCommands)"

definition calculateProductivityMetrics ::
  "CommandEntry list \<Rightarrow> (string \<rightharpoonup> nat) \<Rightarrow> (string \<rightharpoonup> real)" where
  "calculateProductivityMetrics entries patterns =
     (let totalCommands = length entries
      in if totalCommands = 0 then Map.empty
         else
           [''Command Variety'' \<mapsto>
              real (card (uniqueCommandsLoop entries {})) / real totalCommands,
            ''Workflow Complexity'' \<mapsto>
              real (valueAt patterns ''git_workflow'' + valueAt patterns ''build'' +
                    valueAt patterns ''deploy'' + valueAt patterns ''test'')
                / real totalCommands])"

text \<open>
  The two loops that fill \<^verbatim>\<open>Proficiency\<close> assign one score to every key of a usage map:
  the map is overridden by the scores of the languages, then by those of the tools.
\<close>

definition scores :: "nat \<Rightarrow> (string \<rightharpoonup> nat) \<Rightarrow> (string \<rightharpoonup> real)" where
  "scores totalCommands usage = (\<lambda>k. map_option (\<lambda>count. real count / real totalCommands) (usage k))"

definition analyzeCommands :: "Host \<Rightarrow> CommandEntry list \<Rightarrow> ShellData \<Rightarrow> ShellData" where
  "analyzeCommands h entries data =
     (let t = analyzeEntries h entries emptyTally;
          techProfile = TechnicalProfile (Insights data);
          role = (case getMostUsed (rangeMap (usageOrder h) (langUsage t)) of
                    (primaryLang, ok) \<Rightarrow>
                      if ok then Title primaryLang @ '' Developer'' else PrimaryRole techProfile);
          stack = filter (\<lambda>lang. valueAt (langUsage t) lang > 0) (installedLangs h);
          totalCommands = length entries;
          proficiency =
            (if totalCommands > 0
             then Proficiency techProfile ++ scores totalCommands (langUsage t)
                    ++ scores totalCommands (toolUsage t)
             else Proficiency techProfile);
          patterns = Patterns (Insights data)
      in data\<lparr>Insights := (Insights data)
           \<lparr>TechnicalProfile := techProfile
              \<lparr>PrimaryRole := role, TechStack := stack, Proficiency := proficiency\<rparr>,
            Patterns := patterns
              \<lparr>PeakHours := getPeakHours h (timeOfDay t),
               Productivity := calculateProductivityMetrics entries (commandPatterns t)\<rparr>\<rparr>\<rparr>)"

definition editors :: "string list" where
  "editors = [''vim'', ''nvim'', ''emacs'', ''code'', ''nano'']"

definition buildTools :: "string list" where
  "buildTools =
     [''make'', ''maven'', ''gradle'', ''npm'', ''yarn'', ''pip'', ''cargo'', ''composer'',
      ''bundler'']"

fun analyzeToolUsageLoop :: "Host \<Rightarrow> CommandEntry list \<Rightarrow> ToolUsage \<Rightarrow> ToolUsage" where
  "analyzeToolUsageLoop h [] tu = tu"
| "analyzeToolUsageLoop h (entry # rest) tu =
     (let cmd = Command entry
      in analyzeToolUsageLoop h rest
           \<lparr>Editors = countTools h editors cmd (Editors tu),
            Languages = countLangs (installedLangs h) cmd (Languages tu),
            BuildTools = countTools h buildTools cmd (BuildTools tu)\<rparr>)"

definition analyzeToolUsage :: "Host \<Rightarrow> CommandEntry list \<Rightarrow> ToolUsage" where
  "analyzeToolUsage h entries =
     analyzeToolUsageLoop h entries
       \<lparr>Editors = Map.empty, Languages = Map.empty, BuildTools = Map.empty\<rparr>"

section \<open>The timeline (analyzer.go)\<close>

definition isTypoCommand :: "string \<Rightarrow> bool" where
  "isTypoCommand command =
     list_ex (\<lambda>typo. command = typo)
       [''sl'', ''cd..'', ''pythoon'', ''gti'', ''vmi'', ''nivm'', ''emasc'', ''clea'', ''exot'']"

definition interestingCommands :: "string list" where
  "interestingCommands =
     [''git'', ''docker'', ''kubectl'', ''terraform'', ''ansible'', ''make'', ''npm'', ''go'',
      ''python'', ''java'', ''ssh'', ''scp'', ''curl'', ''wget'', ''vim'', ''nvim'', ''emacs'',
      ''code'']"

definition isInterestingCommand :: "string \<Rightarrow> bool" where
  "isInterestingCommand command =
     (let hasSpecialChars = ContainsAny command ''|><&;'';
          isTypo = isTypoCommand command
      in if list_ex (HasPrefix command) interestingCommands then True
         else hasSpecialChars \<or> isTypo)"

text \<open>
  The loop over one history. The state is the timeline so far and the commands already
  taken; the flag of the result says that the function has returned from inside the loop.
\<close>

fun timelineHistory ::
  "string \<Rightarrow> CommandEntry list \<Rightarrow> TimelineEntry list \<times> string set \<Rightarrow>
     (TimelineEntry list \<times> string set) \<times> bool" where
  "timelineHistory shell [] (timelineData, uniqueCommands) =
     ((timelineData, uniqueCommands), False)"
| "timelineHistory shell (entry # rest) (timelineData, uniqueCommands) =
     (if Command entry \<in> uniqueCommands
      then timelineHistory shell rest (timelineData, uniqueCommands)
      else
        (let st =
           (if isInterestingCommand (Command entry)
            then (timelineData @
                    [\<lparr>EntryTimestamp = Timestamp entry, EntryCommand = Command entry,
                      Shell = shell\<rparr>],
                  insert (Command entry) uniqueCommands)
            else (timelineData, uniqueCommands))
         in if length (fst st) \<ge> 15 then (st, True) else timelineHistory shell rest st))"

fun timelineShells ::
  "(string \<times> CommandEntry list) list \<Rightarrow> TimelineEntry list \<times> string set \<Rightarrow> TimelineEntry list" where
  "timelineShells [] st = fst st"
| "timelineShells ((shell, history) # rest) st =
     (case timelineHistory shell history st of
        (st', returned) \<Rightarrow> if returned then fst st' else timelineShells rest st')"

text \<open>\<open>order\<close> is the order in which \<^verbatim>\<open>range\<close> visits the shells of \<^verbatim>\<open>data.Histories\<close>.\<close>

definition GenerateTimelineData :: "string list \<Rightarrow> ShellData \<Rightarrow> TimelineEntry list" where
  "GenerateTimelineData order data = timelineShells (rangeMap order (Histories data)) ([], {})"

section \<open>Configuration files (shell\_analysis.go)\<close>

definition quotes :: string where
  "quotes = [CHR 0x27, CHR 0x22]"

definition parseAlias :: "string \<Rightarrow> ShellConfig \<Rightarrow> ShellConfig" where
  "parseAlias line config =
     (if HasPrefix line ''alias ''
      then
        (let parts = SplitN2 (TrimPrefix line ''alias '') (CHR ''='')
         in if length parts = 2
            then
              (let name = TrimSpace (parts ! 0);
                   val = Trim (TrimSpace (parts ! 1)) quotes
               in config\<lparr>Aliases := (Aliases config)(name \<mapsto> val)\<rparr>)
            else config)
      else config)"

definition parseExport :: "string \<Rightarrow> ShellConfig \<Rightarrow> ShellConfig" where
  "parseExport line config =
     (if HasPrefix line ''export ''
      then
        (let parts = SplitN2 (TrimPrefix line ''export '') (CHR ''='')
         in if length parts = 2
            then
              (let name = TrimSpace (parts ! 0);
                   val = Trim (TrimSpace (parts ! 1)) quotes
               in config\<lparr>Environment := (Environment config)(name \<mapsto> val)\<rparr>)
            else config)
      else config)"

fun parseLines :: "string list \<Rightarrow> ShellConfig \<Rightarrow> ShellConfig" where
  "parseLines [] config = config"
| "parseLines (line # rest) config = parseLines rest (parseExport line (parseAlias line config))"

text \<open>The scanner's error is not looked at: the lines before a line too long are parsed.\<close>

definition parseShellConfig :: "string \<Rightarrow> ShellConfig \<Rightarrow> ShellConfig" where
  "parseShellConfig content config = parseLines (fst (Scan content)) config"












section \<open>The whole run (shell\_analysis.go)\<close>




section \<open>Vocabulary of the properties\<close>

text \<open>
  The entries the timeline loop visits, in the order it visits them: the histories in the
  order \<^verbatim>\<open>range\<close> yields the shells, each entry as the timeline entry it would become.
\<close>

definition timelineEntryOf :: "string \<Rightarrow> CommandEntry \<Rightarrow> TimelineEntry" where
  "timelineEntryOf shell entry =
     \<lparr>EntryTimestamp = Timestamp entry, EntryCommand = Command entry, Shell = shell\<rparr>"

definition visitedEntries :: "string list \<Rightarrow> ShellData \<Rightarrow> TimelineEntry list" where
  "visitedEntries order data =
     concat (map (\<lambda>(shell, history). map (timelineEntryOf shell) history)
       (rangeMap order (Histories data)))"

text \<open>
  \<open>e\<close> stands in the visited entries at a place before which no entry has its command.
\<close>

definition firstOccurrence :: "TimelineEntry list \<Rightarrow> TimelineEntry \<Rightarrow> bool" where
  "firstOccurrence visited e =
     (\<exists>before after. visited = before @ e # after \<and>
        EntryCommand e \<notin> EntryCommand ` set before)"

text \<open>
  A curated timeline: no command twice, every entry interesting and a first occurrence.
  \<open>timelineInv\<close> is what holds of the state of the loop when \<open>seen\<close> has been visited: the
  set of taken commands is that of the timeline, which is short of 15 entries and curated,
  and every interesting command seen has been taken.
\<close>

definition curated :: "TimelineEntry list \<Rightarrow> TimelineEntry list \<Rightarrow> bool" where
  "curated visited timelineData =
     (distinct (map EntryCommand timelineData) \<and>
      (\<forall>e\<in>set timelineData.
         isInterestingCommand (EntryCommand e) \<and> firstOccurrence visited e))"

definition timelineInv :: "TimelineEntry list \<Rightarrow> TimelineEntry list \<times> string set \<Rightarrow> bool" where
  "timelineInv seen st =
     (snd st = EntryCommand ` set (fst st) \<and> length (fst st) < 15 \<and> curated seen (fst st) \<and>
      (\<forall>x\<in>set seen. isInterestingCommand (EntryCommand x) \<longrightarrow> EntryCommand x \<in> snd st))"

text \<open>The alias a line declares, as \<^verbatim>\<open>parseShellConfig\<close> reads it: its name and its value.\<close>

definition aliasOf :: "string \<Rightarrow> (string \<times> string) option" where
  "aliasOf line =
     (if HasPrefix line ''alias ''
      then
        (let parts = SplitN2 (TrimPrefix line ''alias '') (CHR ''='')
         in if length parts = 2
            then Some (TrimSpace (parts ! 0), Trim (TrimSpace (parts ! 1)) quotes)
            else None)
      else None)"

text \<open>
  The entries of an hour: those whose timestamp falls in it.
\<close>

definition bucket :: "CommandEntry list \<Rightarrow> int \<Rightarrow> nat" where
  "bucket entries hour = length (filter (\<lambda>entry. Hour (Timestamp entry) = hour) entries)"

text \<open>
  What \<^verbatim>\<open>sort.Slice\<close> promises of a sort with the comparison of \<^verbatim>\<open>getPeakHours\<close>: the
  result is a rearrangement of the slice, and no element stands before one with a greater
  count. \<open>rankedHours\<close> is the sorted slice that \<^verbatim>\<open>getPeakHours\<close> takes its hours from.
\<close>

definition sortsByCount :: "((int \<times> nat) list \<Rightarrow> (int \<times> nat) list) \<Rightarrow> bool" where
  "sortsByCount pdq =
     (\<forall>hours. mset (pdq hours) = mset hours \<and> sorted_wrt (\<lambda>a b. snd b \<le> snd a) (pdq hours))"

definition rankedHours :: "Host \<Rightarrow> (int \<rightharpoonup> nat) \<Rightarrow> (int \<times> nat) list" where
  "rankedHours h tod = sortSlice (pdqsort h) moreFrequent (rangeMap (hourOrder h) tod)"

text \<open>
  What the loops of \<^verbatim>\<open>analyzeCommands\<close> count. A command mentions a language when it contains
  its name or the name of its package manager. \<open>langCount\<close> is the number of entries that
  mention an installed language, \<open>toolCount\<close> the number of entries that start with a
  development tool that is installed, \<open>matchCount\<close> the number of entries that match a
  pattern of \<^verbatim>\<open>analyzeCommandPattern\<close>.
\<close>

definition mentions :: "string \<Rightarrow> string \<Rightarrow> bool" where
  "mentions cmd lang = (Contains cmd lang \<or> Contains cmd (getPackageManager lang))"

definition langCount :: "Host \<Rightarrow> CommandEntry list \<Rightarrow> string \<Rightarrow> nat" where
  "langCount h entries lang =
     length (filter (\<lambda>entry. lang \<in> set (installedLangs h) \<and> mentions (Command entry) lang) entries)"

definition toolCount :: "Host \<Rightarrow> CommandEntry list \<Rightarrow> string \<Rightarrow> nat" where
  "toolCount h entries tool =
     length (filter (\<lambda>entry. tool \<in> set devTools \<and> HasPrefix (Command entry) tool \<and>
                              checkToolInstalled h tool) entries)"

definition matchesPattern :: "string \<Rightarrow> string \<Rightarrow> bool" where
  "matchesPattern pattern cmd =
     (case map_of patternMap pattern of None \<Rightarrow> False | Some regex \<Rightarrow> MatchString regex cmd)"

definition matchCount :: "CommandEntry list \<Rightarrow> string \<Rightarrow> nat" where
  "matchCount entries pattern =
     length (filter (\<lambda>entry. matchesPattern pattern (Command entry)) entries)"

text \<open>
  A map of counters after a loop over \<open>es\<close> that increments the counter of \<open>k\<close> once for every
  element \<open>e\<close> with \<open>P e k\<close>.
\<close>

definition counted :: "('e \<Rightarrow> 'k \<Rightarrow> bool) \<Rightarrow> 'e list \<Rightarrow> ('k \<rightharpoonup> nat) \<Rightarrow> 'k \<Rightarrow> nat option" where
  "counted P es m k =
     (if filter (\<lambda>e. P e k) es = [] then m k
      else Some (valueAt m k + length (filter (\<lambda>e. P e k) es)))"

section \<open>A host for the examples\<close>

text \<open>
  A machine with one history file, for \<^verbatim>\<open>bash\<close>, of three lines:
  \<^verbatim>\<open>git commit -m "x"\<close>, \<^verbatim>\<open>git commit -m "y"\<close> and \<^verbatim>\<open>ls -la\<close>. Of the tools the analyzer
  probes, \<^verbatim>\<open>git\<close> alone is installed.
\<close>

definition exampleHistory :: string where
  "exampleHistory =
     ''git commit -m '' @ [CHR 0x22] @ ''x'' @ [CHR 0x22, CHR 0x0A] @
     ''git commit -m '' @ [CHR 0x22] @ ''y'' @ [CHR 0x22, CHR 0x0A] @
     ''ls -la'' @ [CHR 0x0A]"

definition exampleHost :: Host where
  "exampleHost =
     \<lparr>UserHomeDir = Some ''/home/u'',
      ReadFile = [''/home/u/.bash_history'' \<mapsto> exampleHistory],
      Stat = Map.empty,
      ReadDir = Map.empty,
      Join = (\<lambda>a b. a @ ''/'' @ b),
      Now = (\<lambda>path i. 0),
      LookPath = (\<lambda>tool. tool = ''git''),
      installedLangs = [''git''],
      categoryOrder = (\<lambda>path i. [''development'', ''system'', ''file'']),
      usageOrder = [''git''],
      hourOrder = map int [0..<24],
      shellOrder = [''bash'', ''zsh'', ''fish''],
      pdqsort = insertionSortLessFunc moreFrequent\<rparr>"

text \<open>An entry with a command and a time, and nothing else.\<close>

definition commandAt :: "string \<Rightarrow> Time \<Rightarrow> CommandEntry" where
  "commandAt cmd t = \<lparr>Command = cmd, Timestamp = t, Count = 0, Categories = []\<rparr>"

text \<open>Two shells whose histories share the command \<^verbatim>\<open>git\<close>.\<close>

definition twoShells :: ShellData where
  "twoShells =
     InitShellData\<lparr>Histories :=
       [''bash'' \<mapsto> [commandAt ''git'' 0, commandAt ''ls'' 0],
        ''zsh'' \<mapsto> [commandAt ''git'' 3600, commandAt ''a|b'' 3600]]\<rparr>"

text \<open>A configuration file that declares the alias \<^verbatim>\<open>ll\<close> twice.\<close>

definition exampleConfig :: string where
  "exampleConfig =
     ''alias ll=ls'' @ [CHR 0x0A] @
     ''alias ll='' @ [CHR 0x27] @ ''ls -la'' @ [CHR 0x27, CHR 0x0A] @
     ''export EDITOR=vim'' @ [CHR 0x0A]"

definition emptyConfig :: ShellConfig where
  "emptyConfig = \<lparr>ConfigFiles = Map.empty, Plugins = [], Aliases = Map.empty, Environment = Map.empty\<rparr>"

text \<open>
  Two entries in two hours, and a host on which \<^verbatim>\<open>range\<close> visits hour 5 before hour 3.
\<close>

definition tieEntries :: "CommandEntry list" where
  "tieEntries = [commandAt ''ls'' (5 * 3600), commandAt ''cd'' (3 * 3600)]"

definition tieHost :: Host where
  "tieHost = exampleHost\<lparr>hourOrder := [5, 3]\<rparr>"

text \<open>
  Three entries: one in hour 3 and two in hour 5.
\<close>

definition busyEntries :: "CommandEntry list" where
  "busyEntries = [commandAt ''ls'' (3 * 3600), commandAt ''cd'' (5 * 3600), commandAt ''ls'' (5 * 3600 + 60)]"

text \<open>
  Twenty entries with five distinct commands.
\<close>

definition twentyLines :: "CommandEntry list" where
  "twentyLines =
     map (\<lambda>cmd. commandAt cmd 0)
       [''git'', ''docker'', ''npm'', ''ls'', ''cd'', ''git'', ''docker'', ''npm'', ''ls'', ''cd'',
        ''git'', ''docker'', ''npm'', ''ls'', ''cd'', ''git'', ''docker'', ''npm'', ''ls'', ''cd'']"

text \<open>
  Two entries that both contain \<^verbatim>\<open>git\<close>; one of them starts with it.
\<close>

definition overlapEntries :: "CommandEntry list" where
  "overlapEntries = [commandAt ''git'' 0, commandAt ''legit'' 0]"


section \<open>Properties of the line cleaner and the history reader\<close>

lemma HasPrefix_append: "HasPrefix s w \<Longrightarrow> HasPrefix (s @ t) w"
  by (induction s w rule: HasPrefix.induct) auto

lemma HasPrefix_hd: "HasPrefix (c # cs) w \<Longrightarrow> w \<noteq> [] \<Longrightarrow> hd w = c"
  by (cases w) auto

lemma whiteSpace_nonempty: "[] \<notin> set whiteSpace"
  by (simp add: whiteSpace_def)

lemma spaceWidth_0_iff: "spaceWidth s = 0 \<longleftrightarrow> (\<forall>w\<in>set whiteSpace. \<not> HasPrefix s w)"
proof
  assume z: "spaceWidth s = 0"
  show "\<forall>w\<in>set whiteSpace. \<not> HasPrefix s w"
  proof (cases "find (HasPrefix s) whiteSpace")
    case None
    then show ?thesis by (simp add: find_None_iff)
  next
    case (Some w)
    then have "w \<in> set whiteSpace" by (auto simp: find_Some_iff)
    moreover from z Some have "w = []" by (simp add: spaceWidth_def)
    ultimately show ?thesis using whiteSpace_nonempty by simp
  qed
next
  assume "\<forall>w\<in>set whiteSpace. \<not> HasPrefix s w"
  then have "find (HasPrefix s) whiteSpace = None"
    by (simp add: find_None_iff)
  then show "spaceWidth s = 0"
    by (simp add: spaceWidth_def)
qed

text \<open>Two facts that let the simplifier run the line cleaner on ASCII text.\<close>

lemma spaceWidth_plain:
  "c \<notin> {CHR 0x09, CHR 0x0A, CHR 0x0B, CHR 0x0C, CHR 0x0D, CHR 0x20, CHR 0xC2, CHR 0xE1,
         CHR 0xE2, CHR 0xE3}
     \<Longrightarrow> spaceWidth (c # cs) = 0"
proof -
  assume c: "c \<notin> {CHR 0x09, CHR 0x0A, CHR 0x0B, CHR 0x0C, CHR 0x0D, CHR 0x20, CHR 0xC2,
                   CHR 0xE1, CHR 0xE2, CHR 0xE3}"
  have "\<forall>w\<in>set whiteSpace. w \<noteq> [] \<and>
          hd w \<in> {CHR 0x09, CHR 0x0A, CHR 0x0B, CHR 0x0C, CHR 0x0D, CHR 0x20, CHR 0xC2,
                  CHR 0xE1, CHR 0xE2, CHR 0xE3}"
    by (simp add: whiteSpace_def)
  then have "\<forall>w\<in>set whiteSpace. \<not> HasPrefix (c # cs) w"
    using c HasPrefix_hd by metis
  then show ?thesis by (simp add: spaceWidth_0_iff)
qed

lemma spaceWidth_blank: "spaceWidth (CHR 0x20 # cs) = 1"
  by (simp add: spaceWidth_def whiteSpace_def)

lemma spaceWidth_append: "spaceWidth (s @ t) = 0 \<Longrightarrow> spaceWidth s = 0"
  unfolding spaceWidth_0_iff using HasPrefix_append by blast

lemma hasSpace_iff: "hasSpace s \<longleftrightarrow> (\<exists>i<length s. 0 < spaceWidth (drop i s))"
proof (induction s)
  case Nil
  then show ?case by simp
next
  case (Cons c cs)
  show ?case
  proof
    assume "hasSpace (c # cs)"
    then consider "0 < spaceWidth (c # cs)" | "hasSpace cs" by auto
    then show "\<exists>i<length (c # cs). 0 < spaceWidth (drop i (c # cs))"
    proof cases
      case 1
      then have "0 < spaceWidth (drop 0 (c # cs))" by simp
      then show ?thesis by blast
    next
      case 2
      then obtain i where "i < length cs" "0 < spaceWidth (drop i cs)"
        using Cons.IH by blast
      then have "Suc i < length (c # cs)" "0 < spaceWidth (drop (Suc i) (c # cs))" by simp_all
      then show ?thesis by blast
    qed
  next
    assume "\<exists>i<length (c # cs). 0 < spaceWidth (drop i (c # cs))"
    then obtain i where i: "i < length (c # cs)" "0 < spaceWidth (drop i (c # cs))" by blast
    show "hasSpace (c # cs)"
    proof (cases i)
      case 0
      with i show ?thesis by simp
    next
      case (Suc j)
      with i have "j < length cs" "0 < spaceWidth (drop j cs)" by simp_all
      then have "hasSpace cs" using Cons.IH by blast
      then show ?thesis by simp
    qed
  qed
qed

text \<open>
  While a field is collected, no white-space rune starts inside it, also not one that
  would end in the text still to come.
\<close>

lemma FieldsFunc_fields:
  "(\<forall>i<length cur. spaceWidth (drop i cur @ s) = 0) \<Longrightarrow> f \<in> set (FieldsFunc cur s) \<Longrightarrow>
     f \<noteq> [] \<and> \<not> hasSpace f"
proof (induction cur s rule: FieldsFunc.induct)
  case (1 cur)
  then have f: "f = cur" "cur \<noteq> []" by (auto split: if_splits)
  from 1(1) have "\<forall>i<length cur. spaceWidth (drop i cur) = 0" by simp
  then have "\<not> hasSpace cur" by (simp add: hasSpace_iff)
  with f show ?case by simp
next
  case (2 cur c cs)
  show ?case
  proof (cases "spaceWidth (c # cs) = 0")
    case True
    have inv: "\<forall>i<length (cur @ [c]). spaceWidth (drop i (cur @ [c]) @ cs) = 0"
    proof (intro allI impI)
      fix i assume "i < length (cur @ [c])"
      then consider "i < length cur" | "i = length cur" by fastforce
      then show "spaceWidth (drop i (cur @ [c]) @ cs) = 0"
      proof cases
        case 1
        then show ?thesis using 2(3) by simp
      next
        case 2
        then show ?thesis using True by simp
      qed
    qed
    from 2(4) True have "f \<in> set (FieldsFunc (cur @ [c]) cs)" by simp
    with 2(1)[OF refl True inv] show ?thesis .
  next
    case False
    from 2(4) False consider "f = cur" "cur \<noteq> []"
      | "f \<in> set (FieldsFunc [] (drop (spaceWidth (c # cs)) (c # cs)))"
      by (auto simp: Let_def split: if_splits)
    then show ?thesis
    proof cases
      case 1
      have "\<forall>i<length cur. spaceWidth (drop i cur) = 0"
        using 2(3) spaceWidth_append by blast
      then have "\<not> hasSpace cur" by (simp add: hasSpace_iff)
      with 1 show ?thesis by simp
    next
      case 2
      with "2.IH"(2)[OF refl False] show ?thesis by simp
    qed
  qed
qed

lemma Fields_fields: "f \<in> set (Fields line) \<Longrightarrow> f \<noteq> [] \<and> \<not> hasSpace f"
  unfolding Fields_def using FieldsFunc_fields[of "[]" line f] by simp

lemma cleanHistoryLine_last:
  "cleanHistoryLine line = (if Fields line = [] then [] else last (Fields line))"
  by (simp add: cleanHistoryLine_def Let_def last_conv_nth)

lemma cleanHistoryLine_token: "cleanHistoryLine line \<noteq> [] \<Longrightarrow> \<not> hasSpace (cleanHistoryLine line)"
  using Fields_fields[of "last (Fields line)" line]
  by (auto simp: cleanHistoryLine_last split: if_splits)

lemma readLines_commands:
  "map Command (readLines h path i lines entries) =
     map Command entries @ filter (\<lambda>cmd. cmd \<noteq> []) (map cleanHistoryLine lines)"
  by (induction lines arbitrary: i entries) (auto simp: Let_def)

lemma Scan_exampleHistory:
  "Scan exampleHistory =
     ([''git commit -m '' @ [CHR 0x22] @ ''x'' @ [CHR 0x22],
       ''git commit -m '' @ [CHR 0x22] @ ''y'' @ [CHR 0x22], ''ls -la''], None)"
  by (simp add: exampleHistory_def Scan_def MaxScanTokenSize_def dropCR_def Let_def)

lemma exampleHost_commands:
  "map Command (fst (readHistory exampleHost ''/home/u/.bash_history'')) =
     [[CHR 0x22, CHR ''x'', CHR 0x22], [CHR 0x22, CHR ''y'', CHR 0x22], ''-la'']"
  by (simp add: readHistory_def exampleHost_def Scan_exampleHistory cleanHistoryLine_def
      Fields_def spaceWidth_plain spaceWidth_blank Let_def)

text \<open>
  Claim C10. The line cleaner returns the last white-space-separated field of the line, or
  the empty string when the line has no field. No field is empty and none holds a
  white-space rune. The commands that \<^verbatim>\<open>readHistory\<close> stores are the cleaned lines that are
  not empty, in the order of the file, so every stored command is one non-empty token.
\<close>

theorem readHistory_single_token:
  "cleanHistoryLine line = (if Fields line = [] then [] else last (Fields line)) \<and>
   (\<forall>f\<in>set (Fields line). f \<noteq> [] \<and> \<not> hasSpace f) \<and>
   map Command (readLines h path 0 lines []) =
     filter (\<lambda>cmd. cmd \<noteq> []) (map cleanHistoryLine lines) \<and>
   (\<forall>entry\<in>set (fst (readHistory h path)).
      Command entry \<noteq> [] \<and> \<not> hasSpace (Command entry))"
proof (intro conjI ballI)
  show "cleanHistoryLine line = (if Fields line = [] then [] else last (Fields line))"
    by (rule cleanHistoryLine_last)
  show "map Command (readLines h path 0 lines []) =
     filter (\<lambda>cmd. cmd \<noteq> []) (map cleanHistoryLine lines)"
    by (simp add: readLines_commands)
next
  fix f assume "f \<in> set (Fields line)"
  then show "f \<noteq> []" "\<not> hasSpace f" using Fields_fields by blast+
next
  fix entry assume e: "entry \<in> set (fst (readHistory h path))"
  then obtain content where c: "ReadFile h path = Some content"
    and "entry \<in> set (readLines h path 0 (fst (Scan content)) [])"
    by (auto simp: readHistory_def split: option.splits prod.splits)
  then have "Command entry \<in> set (map Command (readLines h path 0 (fst (Scan content)) []))"
    by simp
  then have "Command entry \<in>
      set (filter (\<lambda>cmd. cmd \<noteq> []) (map cleanHistoryLine (fst (Scan content))))"
    by (simp only: readLines_commands) simp
  then obtain l where "Command entry = cleanHistoryLine l" "cleanHistoryLine l \<noteq> []" by auto
  then show "Command entry \<noteq> []" "\<not> hasSpace (Command entry)"
    using cleanHistoryLine_token by auto
qed

theorem readHistory_single_token_witness:
  "map Command (fst (readHistory exampleHost ''/home/u/.bash_history'')) =
     [[CHR 0x22, CHR ''x'', CHR 0x22], [CHR 0x22, CHR ''y'', CHR 0x22], ''-la''] \<and>
   \<not> hasSpace ''-la'' \<and> \<not> hasSpace [CHR 0x22, CHR ''x'', CHR 0x22]"
proof -
  let ?es = "fst (readHistory exampleHost ''/home/u/.bash_history'')"
  have m: "map Command ?es = [[CHR 0x22, CHR ''x'', CHR 0x22], [CHR 0x22, CHR ''y'', CHR 0x22], ''-la'']"
    by (rule exampleHost_commands)
  then have "''-la'' \<in> Command ` set ?es" "[CHR 0x22, CHR ''x'', CHR 0x22] \<in> Command ` set ?es"
    by (metis list.set_intros(1,2) list.set_map)+
  then obtain e1 e2 where "e1 \<in> set ?es" "Command e1 = ''-la''"
    "e2 \<in> set ?es" "Command e2 = [CHR 0x22, CHR ''x'', CHR 0x22]"
    by auto
  with readHistory_single_token[of "''ls -la''" exampleHost "''/home/u/.bash_history''" "[]"]
  have "\<not> hasSpace ''-la''" "\<not> hasSpace [CHR 0x22, CHR ''x'', CHR 0x22]"
    by metis+
  with m show ?thesis by simp
qed

lemma readLines_timestamps:
  "map Timestamp (readLines h path i lines entries) =
     map Timestamp entries @
     map (\<lambda>(j, line). Now h path j)
       (filter (\<lambda>(j, line). cleanHistoryLine line \<noteq> []) (zip [i..<i + length lines] lines))"
proof (induction lines arbitrary: i entries)
  case Nil
  then show ?case by simp
next
  case (Cons l ls)
  have "[i..<Suc (i + length ls)] = i # [Suc i..<Suc (i + length ls)]"
    by (rule upt_conv_Cons) simp
  then show ?case by (simp add: Cons.IH Let_def del: upt_Suc)
qed

text \<open>
  The timestamp of a stored entry is the reading of the clock taken while its line is
  handled: nothing of the content of the file enters it.
\<close>

theorem readHistory_timestamps:
  "map Timestamp (fst (readHistory h path)) =
     (case ReadFile h path of
        None \<Rightarrow> []
      | Some content \<Rightarrow>
          map (\<lambda>(j, line). Now h path j)
            (filter (\<lambda>(j, line). cleanHistoryLine line \<noteq> [])
               (zip [0..<length (fst (Scan content))] (fst (Scan content)))))"
  by (simp add: readHistory_def readLines_timestamps split: option.splits prod.splits)

section \<open>Properties of the categories\<close>

lemma rangeMap_keys: "map fst (rangeMap order m) = filter (\<lambda>k. m k \<noteq> None) order"
  by (induction order) (auto simp: rangeMap_def split: option.splits)

lemma rangeMap_set: "set (rangeMap order m) = {(k, v). k \<in> set order \<and> m k = Some v}"
  by (induction order) (auto simp: rangeMap_def split: option.splits)

lemma rangeMap_distinct: "distinct order \<Longrightarrow> distinct (map fst (rangeMap order m))"
  by (simp add: rangeMap_keys)

lemma rangeMap_enumerates:
  "enumerates order m \<Longrightarrow> set (rangeMap order m) = {(k, v). m k = Some v}"
  by (auto simp: rangeMap_set enumerates_def dom_def)

lemma categorizeLoop_eq:
  "categorizeLoop cmd kvs categories =
     categories @ map fst (filter (\<lambda>(category, patterns). list_ex (HasPrefix cmd) patterns) kvs)"
  by (induction kvs arbitrary: categories) auto

lemma categorizeCommand_set:
  assumes "enumerates order categoryPatterns"
  shows "set (categorizeCommand order cmd) =
     {category. \<exists>patterns. categoryPatterns category = Some patterns \<and>
        (\<exists>p\<in>set patterns. HasPrefix cmd p)}"
  using rangeMap_enumerates[OF assms]
  by (auto simp: categorizeCommand_def categorizeLoop_eq list_ex_iff image_iff)

lemma categorizeCommand_distinct:
  assumes "enumerates order categoryPatterns"
  shows "distinct (categorizeCommand order cmd)"
proof -
  have "distinct (map fst (rangeMap order categoryPatterns))"
    using assms by (simp add: rangeMap_distinct enumerates_def)
  then show ?thesis
    by (simp add: categorizeCommand_def categorizeLoop_eq distinct_map_filter)
qed


lemma enumerates_categories:
  "enumerates [''development'', ''system'', ''file''] categoryPatterns"
  by (auto simp: enumerates_def categoryPatterns_def dom_def)


text \<open>
  With the prefixes the source lists, no prefix of one category starts with, or is the start
  of, a prefix of another: a command never has two tags.
\<close>

lemma HasPrefix_two: "HasPrefix s p \<Longrightarrow> HasPrefix s q \<Longrightarrow> HasPrefix p q \<or> HasPrefix q p"
proof (induction s p arbitrary: q rule: HasPrefix.induct)
  case (1 s)
  then show ?case by simp
next
  case (2 p ps)
  then show ?case by simp
next
  case (3 c cs p ps)
  then show ?case by (cases q) auto
qed

theorem categorizeCommand_at_most_one:
  assumes "enumerates order categoryPatterns"
  shows "length (categorizeCommand order cmd) \<le> 1"
proof -
  let ?r = "categorizeCommand order cmd"
  have d: "distinct ?r" by (rule categorizeCommand_distinct[OF assms])
  have "\<And>a b. a \<in> set ?r \<Longrightarrow> b \<in> set ?r \<Longrightarrow> a = b"
  proof -
    fix a b assume "a \<in> set ?r" "b \<in> set ?r"
    then obtain pa pb p q where
      "categoryPatterns a = Some pa" "p \<in> set pa" "HasPrefix cmd p"
      "categoryPatterns b = Some pb" "q \<in> set pb" "HasPrefix cmd q"
      unfolding categorizeCommand_set[OF assms] by blast
    moreover then have "HasPrefix p q \<or> HasPrefix q p" using HasPrefix_two by blast
    ultimately show "a = b"
      by (auto simp: categoryPatterns_def split: if_splits)
  qed
  then have "card (set ?r) \<le> 1"
    by (metis card_le_Suc0_iff_eq List.finite_set One_nat_def)
  with d show ?thesis by (simp add: distinct_card)
qed

text \<open>
  The command \<^verbatim>\<open>sudo\<close> has the one tag \<^verbatim>\<open>system\<close>.
\<close>

theorem categorizeCommand_at_most_one_witness:
  "enumerates [''development'', ''system'', ''file''] categoryPatterns \<and>
   categorizeCommand [''development'', ''system'', ''file''] ''sudo'' = [''system''] \<and>
   length (categorizeCommand [''development'', ''system'', ''file''] ''sudo'') \<le> 1"
proof -
  have "categorizeCommand [''development'', ''system'', ''file''] ''sudo'' = [''system'']"
    by (simp add: categorizeCommand_def rangeMap_def categoryPatterns_def)
  with categorizeCommand_at_most_one[OF enumerates_categories, of "''sudo''"] enumerates_categories
  show ?thesis by simp
qed

section \<open>Properties of the timeline\<close>

lemma firstOccurrence_extend: "firstOccurrence seen e \<Longrightarrow> firstOccurrence (seen @ extra) e"
  unfolding firstOccurrence_def by (metis append_Cons append_assoc)

lemma curated_extend: "curated seen tdata \<Longrightarrow> curated (seen @ extra) tdata"
  unfolding curated_def using firstOccurrence_extend by blast

lemma firstOccurrence_new:
  "EntryCommand e \<notin> EntryCommand ` set seen \<Longrightarrow> firstOccurrence (seen @ e # extra) e"
  unfolding firstOccurrence_def by blast

lemma timelineHistory_inv:
  "timelineInv seen st \<Longrightarrow>
   timelineHistory shell history st = (st', returned) \<Longrightarrow>
   length (fst st') \<le> 15 \<and>
   curated (seen @ map (timelineEntryOf shell) history @ later) (fst st') \<and>
   (\<not> returned \<longrightarrow> timelineInv (seen @ map (timelineEntryOf shell) history) st')"
proof (induction history arbitrary: seen st)
  case Nil
  obtain tdata uniq where st: "st = (tdata, uniq)" by (cases st)
  with Nil show ?case
    by (auto simp: timelineInv_def curated_extend)
next
  case (Cons entry rest)
  obtain tdata uniq where st: "st = (tdata, uniq)" by (cases st)
  let ?e = "timelineEntryOf shell entry"
  have cmd: "EntryCommand ?e = Command entry" by (simp add: timelineEntryOf_def)
  have app: "\<And>xs. seen @ map (timelineEntryOf shell) (entry # rest) @ xs =
                (seen @ [?e]) @ map (timelineEntryOf shell) rest @ xs" by simp
  have app2: "seen @ map (timelineEntryOf shell) (entry # rest) =
                (seen @ [?e]) @ map (timelineEntryOf shell) rest" by simp
  from Cons.prems(1) st have inv: "uniq = EntryCommand ` set tdata" "length tdata < 15"
    "curated seen tdata"
    "\<forall>x\<in>set seen. isInterestingCommand (EntryCommand x) \<longrightarrow> EntryCommand x \<in> uniq"
    by (auto simp: timelineInv_def)
  show ?case
  proof (cases "Command entry \<in> uniq")
    case True
    have inv': "timelineInv (seen @ [?e]) (tdata, uniq)"
      using inv True cmd by (auto simp: timelineInv_def curated_extend)
    from Cons.prems(2) st True have "timelineHistory shell rest (tdata, uniq) = (st', returned)"
      by simp
    from Cons.IH[OF inv' this] show ?thesis unfolding app app2 .
  next
    case notin: False
    show ?thesis
    proof (cases "isInterestingCommand (Command entry)")
      case False
      have inv': "timelineInv (seen @ [?e]) (tdata, uniq)"
        using inv False cmd by (auto simp: timelineInv_def curated_extend)
      from Cons.prems(2) st notin False inv(2)
      have "timelineHistory shell rest (tdata, uniq) = (st', returned)"
        by simp
      from Cons.IH[OF inv' this] show ?thesis unfolding app app2 .
    next
      case True
      let ?tl = "tdata @ [?e]"
      let ?uniq = "insert (Command entry) uniq"
      have fresh: "EntryCommand ?e \<notin> EntryCommand ` set seen"
      proof
        assume "EntryCommand ?e \<in> EntryCommand ` set seen"
        then obtain x where "x \<in> set seen" "EntryCommand x = Command entry"
          using cmd by auto
        with inv(4) True have "Command entry \<in> uniq" by metis
        with notin show False ..
      qed
      have cur: "curated (seen @ [?e]) ?tl"
        using inv(1,3) notin True cmd firstOccurrence_new[OF fresh, of "[]"]
          curated_extend[OF inv(3), of "[?e]"]
        by (auto simp: curated_def)
      show ?thesis
      proof (cases "length ?tl \<ge> 15")
        case full: True
        with Cons.prems(2) st notin True have r: "st' = (?tl, ?uniq)" "returned"
          by (simp_all add: timelineEntryOf_def)
        have "length ?tl \<le> 15" using inv(2) by simp
        moreover have "curated (seen @ map (timelineEntryOf shell) (entry # rest) @ later) ?tl"
          unfolding app using curated_extend[OF cur] .
        ultimately show ?thesis using r by simp
      next
        case False
        have inv': "timelineInv (seen @ [?e]) (?tl, ?uniq)"
          using inv cur False cmd by (auto simp: timelineInv_def)
        from Cons.prems(2) st notin True False
        have "timelineHistory shell rest (?tl, ?uniq) = (st', returned)"
          by (simp add: timelineEntryOf_def)
        from Cons.IH[OF inv' this] show ?thesis unfolding app app2 .
      qed
    qed
  qed
qed

lemma timelineShells_inv:
  "timelineInv seen st \<Longrightarrow>
   length (timelineShells shells st) \<le> 15 \<and>
   curated (seen @ concat (map (\<lambda>(shell, history). map (timelineEntryOf shell) history) shells))
     (timelineShells shells st)"
proof (induction shells arbitrary: seen st)
  case Nil
  then show ?case by (simp add: timelineInv_def)
next
  case (Cons sh rest)
  obtain shell history where sh: "sh = (shell, history)" by (cases sh)
  obtain st' returned where r: "timelineHistory shell history st = (st', returned)"
    by (cases "timelineHistory shell history st")
  let ?later = "concat (map (\<lambda>(shell, history). map (timelineEntryOf shell) history) rest)"
  from timelineHistory_inv[OF Cons.prems r, of ?later]
  have h: "length (fst st') \<le> 15"
    "curated (seen @ map (timelineEntryOf shell) history @ ?later) (fst st')"
    "\<not> returned \<Longrightarrow> timelineInv (seen @ map (timelineEntryOf shell) history) st'"
    by simp_all
  show ?case
  proof (cases returned)
    case True
    with h r sh show ?thesis by simp
  next
    case False
    from Cons.IH[OF h(3)[OF False]] r sh False show ?thesis by simp
  qed
qed

text \<open>
  Claim C3. For every \<^verbatim>\<open>ShellData\<close> and every order of the shells, the timeline has at
  most 15 entries, no two of them with the same command text, whichever shells the text came
  from; every entry is interesting and is the first entry with its command among those the
  loop visits, so that the first occurrence wins and later ones are dropped.
\<close>

theorem GenerateTimelineData_curated:
  "length (GenerateTimelineData order data) \<le> 15 \<and>
   distinct (map EntryCommand (GenerateTimelineData order data)) \<and>
   (\<forall>e\<in>set (GenerateTimelineData order data).
      isInterestingCommand (EntryCommand e) \<and>
      firstOccurrence (visitedEntries order data) e)"
proof -
  have "timelineInv [] ([], {})"
    by (simp add: timelineInv_def curated_def)
  from timelineShells_inv[OF this, of "rangeMap order (Histories data)"]
  show ?thesis
    by (simp add: GenerateTimelineData_def visitedEntries_def curated_def)
qed

lemma twoShells_timeline:
  "GenerateTimelineData [''bash'', ''zsh''] twoShells =
     [\<lparr>EntryTimestamp = 0, EntryCommand = ''git'', Shell = ''bash''\<rparr>,
      \<lparr>EntryTimestamp = 3600, EntryCommand = ''a|b'', Shell = ''zsh''\<rparr>]"
  by (simp add: GenerateTimelineData_def twoShells_def rangeMap_def commandAt_def
      isInterestingCommand_def interestingCommands_def isTypoCommand_def ContainsAny_def)

theorem GenerateTimelineData_curated_witness:
  "GenerateTimelineData [''bash'', ''zsh''] twoShells =
     [\<lparr>EntryTimestamp = 0, EntryCommand = ''git'', Shell = ''bash''\<rparr>,
      \<lparr>EntryTimestamp = 3600, EntryCommand = ''a|b'', Shell = ''zsh''\<rparr>] \<and>
   firstOccurrence (visitedEntries [''bash'', ''zsh''] twoShells)
     \<lparr>EntryTimestamp = 0, EntryCommand = ''git'', Shell = ''bash''\<rparr> \<and>
   isInterestingCommand ''a|b''"
  using GenerateTimelineData_curated[of "[''bash'', ''zsh'']" twoShells]
  by (simp add: twoShells_timeline)

section \<open>Properties of the configuration parser\<close>

lemma HasSuffix_last: "HasSuffix (c # cs) w \<Longrightarrow> w \<noteq> [] \<Longrightarrow> last w = last (c # cs)"
proof -
  assume a: "HasSuffix (c # cs) w" "w \<noteq> []"
  obtain x xs where r: "rev (c # cs) = x # xs" by (cases "rev (c # cs)") auto
  from a r have "hd (rev w) = x"
    using HasPrefix_hd[of x xs "rev w"] by (simp add: HasSuffix_def)
  moreover from r have "x = last (c # cs)" by (metis last_rev list.sel(1) rev_rev_ident)
  ultimately show ?thesis using a(2) by (simp add: hd_rev)
qed

lemma endsWithSpace_plain:
  "last (c # cs) \<notin> last ` set whiteSpace \<Longrightarrow> endsWithSpace (c # cs) = None"
proof -
  assume c: "last (c # cs) \<notin> last ` set whiteSpace"
  have "\<forall>w\<in>set whiteSpace. \<not> HasSuffix (c # cs) w"
    using c HasSuffix_last whiteSpace_nonempty by (metis image_eqI)
  then show ?thesis by (simp add: endsWithSpace_def find_None_iff)
qed

lemma whiteSpace_last:
  "last ` set whiteSpace =
     {CHR 0x09, CHR 0x0A, CHR 0x0B, CHR 0x0C, CHR 0x0D, CHR 0x20, CHR 0x85, CHR 0xA0,
      CHR 0x80, CHR 0x81, CHR 0x82, CHR 0x83, CHR 0x84, CHR 0x86, CHR 0x87, CHR 0x88, CHR 0x89,
      CHR 0x8A, CHR 0xA8, CHR 0xA9, CHR 0xAF, CHR 0x9F}"
  unfolding whiteSpace_def by (simp add: insert_commute)

lemma parseAlias_Aliases:
  "Aliases (parseAlias line config) =
     (case aliasOf line of None \<Rightarrow> Aliases config | Some (name, val) \<Rightarrow> (Aliases config)(name \<mapsto> val))"
  by (simp add: parseAlias_def aliasOf_def Let_def)

lemma parseExport_Aliases: "Aliases (parseExport line config) = Aliases config"
  by (simp add: parseExport_def Let_def)

lemma parseLines_snoc:
  "parseLines (ls @ [l]) config = parseExport l (parseAlias l (parseLines ls config))"
  by (induction ls arbitrary: config) auto

lemma parseLines_keeps:
  "\<forall>l\<in>set ls. \<forall>v. aliasOf l \<noteq> Some (name, v) \<Longrightarrow>
     Aliases (parseLines ls config) name = Aliases config name"
proof (induction ls arbitrary: config)
  case Nil
  then show ?case by simp
next
  case (Cons l ls)
  then have "Aliases (parseLines ls (parseExport l (parseAlias l config))) name =
      Aliases (parseExport l (parseAlias l config)) name" by simp
  also have "\<dots> = Aliases config name"
    using Cons.prems by (auto simp: parseExport_Aliases parseAlias_Aliases split: option.splits)
  finally show ?case by simp
qed

lemma parseLines_append: "parseLines (xs @ ys) config = parseLines ys (parseLines xs config)"
  by (induction xs arbitrary: config) auto

lemma parseLines_last_wins:
  assumes "aliasOf line = Some (name, val)"
    and "\<forall>l\<in>set after. \<forall>v. aliasOf l \<noteq> Some (name, v)"
  shows "Aliases (parseLines (before @ line # after) config) name = Some val"
proof -
  have "parseLines (before @ line # after) config =
      parseLines after (parseExport line (parseAlias line (parseLines before config)))"
    by (simp add: parseLines_append)
  then have "Aliases (parseLines (before @ line # after) config) name =
      Aliases (parseExport line (parseAlias line (parseLines before config))) name"
    using parseLines_keeps[OF assms(2)] by simp
  also have "\<dots> = Some val"
    using assms(1) by (simp add: parseExport_Aliases parseAlias_Aliases)
  finally show ?thesis .
qed

lemma aliasOf_ll: "aliasOf (''alias ll='' @ [CHR 0x27] @ ''ls -la'' @ [CHR 0x27]) = Some (''ll'', ''ls -la'')"
  by (simp add: aliasOf_def TrimPrefix_def SplitN2_def TrimSpace_def Trim_def quotes_def
      spaceWidth_plain endsWithSpace_plain whiteSpace_last Let_def)

lemma Scan_alias_ll:
  "fst (Scan (''alias ll='' @ [CHR 0x27] @ ''ls -la'' @ [CHR 0x27])) =
     [] @ (''alias ll='' @ [CHR 0x27] @ ''ls -la'' @ [CHR 0x27]) # []"
  by (simp add: Scan_def MaxScanTokenSize_def dropCR_def Let_def)

text \<open>
  Claim C7. Parsing the file \<^verbatim>\<open>alias ll='ls -la'\<close> maps \<^verbatim>\<open>ll\<close> to \<^verbatim>\<open>ls -la\<close>, without the
  quotes. In any file, when a line declares an alias and no line after it declares an
  alias of the same name, the name is mapped to the value of that line: of the
  declarations of one name, the last one parsed wins.
\<close>

theorem parseShellConfig_alias_last_wins:
  "Aliases (parseShellConfig (''alias ll='' @ [CHR 0x27] @ ''ls -la'' @ [CHR 0x27]) config) ''ll'' =
     Some ''ls -la'' \<and>
   (fst (Scan content) = before @ line # after \<longrightarrow>
    aliasOf line = Some (name, val) \<longrightarrow>
    (\<forall>l\<in>set after. \<forall>v. aliasOf l \<noteq> Some (name, v)) \<longrightarrow>
    Aliases (parseShellConfig content config) name = Some val)"
proof (intro conjI impI)
  show "Aliases (parseShellConfig (''alias ll='' @ [CHR 0x27] @ ''ls -la'' @ [CHR 0x27]) config) ''ll'' =
     Some ''ls -la''"
    unfolding parseShellConfig_def Scan_alias_ll
    by (rule parseLines_last_wins[OF aliasOf_ll]) simp
next
  assume "fst (Scan content) = before @ line # after" "aliasOf line = Some (name, val)"
    "\<forall>l\<in>set after. \<forall>v. aliasOf l \<noteq> Some (name, v)"
  then show "Aliases (parseShellConfig content config) name = Some val"
    using parseLines_last_wins by (simp add: parseShellConfig_def)
qed

lemma Scan_exampleConfig:
  "fst (Scan exampleConfig) =
     [''alias ll=ls''] @ (''alias ll='' @ [CHR 0x27] @ ''ls -la'' @ [CHR 0x27]) # [''export EDITOR=vim'']"
  by (simp add: exampleConfig_def Scan_def MaxScanTokenSize_def dropCR_def Let_def)

lemma aliasOf_export: "aliasOf ''export EDITOR=vim'' = None"
  by (simp add: aliasOf_def)

theorem parseShellConfig_alias_last_wins_witness:
  "Aliases (parseShellConfig exampleConfig emptyConfig) ''ll'' = Some ''ls -la''"
  using parseShellConfig_alias_last_wins[where content = exampleConfig
      and before = "[''alias ll=ls'']"
      and line = "''alias ll='' @ [CHR 0x27] @ ''ls -la'' @ [CHR 0x27]"
      and after = "[''export EDITOR=vim'']"
      and name = "''ll''" and val = "''ls -la''" and config = emptyConfig]
    Scan_exampleConfig aliasOf_export aliasOf_ll
  by simp

section \<open>Properties of the tallies\<close>

lemma incr_at: "incr m k k' = (if k' = k then Some (valueAt m k + 1) else m k')"
  by (simp add: incr_def)

lemma counted_Nil: "counted P [] m k = m k"
  by (simp add: counted_def)

lemma counted_Cons:
  assumes "m' k = (if P e k then Some (valueAt m k + 1) else m k)"
  shows "counted P es m' k = counted P (e # es) m k"
  using assms by (auto simp: counted_def valueAt_def)

lemma counted_empty:
  "counted P es Map.empty k =
     (if length (filter (\<lambda>e. P e k) es) = 0 then None else Some (length (filter (\<lambda>e. P e k) es)))"
  by (simp add: counted_def valueAt_def)

lemma countLangs_at:
  "distinct langs \<Longrightarrow>
   countLangs langs cmd usage k =
     (if k \<in> set langs \<and> mentions cmd k then Some (valueAt usage k + 1) else usage k)"
proof (induction langs arbitrary: usage)
  case Nil
  then show ?case by simp
next
  case (Cons lang rest)
  then have d: "distinct rest" "lang \<notin> set rest" by simp_all
  show ?case
    using Cons.IH[OF d(1)] d(2)
    by (auto simp: incr_at mentions_def valueAt_def)
qed

lemma countTools_at:
  "distinct tools \<Longrightarrow>
   countTools h tools cmd usage k =
     (if k \<in> set tools \<and> HasPrefix cmd k \<and> checkToolInstalled h k
      then Some (valueAt usage k + 1) else usage k)"
proof (induction tools arbitrary: usage)
  case Nil
  then show ?case by simp
next
  case (Cons tool rest)
  then have d: "distinct rest" "tool \<notin> set rest" by simp_all
  show ?case
    using Cons.IH[OF d(1)] d(2)
    by (auto simp: incr_at valueAt_def)
qed

lemma analyzeCommandPatternLoop_at:
  "distinct (map fst kvs) \<Longrightarrow>
   analyzeCommandPatternLoop cmd kvs patterns k =
     (if (case map_of kvs k of None \<Rightarrow> False | Some regex \<Rightarrow> MatchString regex cmd)
      then Some (valueAt patterns k + 1) else patterns k)"
proof (induction kvs arbitrary: patterns)
  case Nil
  then show ?case by simp
next
  case (Cons kv rest)
  obtain pattern regex where kv: "kv = (pattern, regex)" by (cases kv)
  from Cons.prems kv have d: "distinct (map fst rest)" "pattern \<notin> fst ` set rest" by simp_all
  then have n: "map_of rest pattern = None" by (simp add: map_of_eq_None_iff)
  show ?case
    using Cons.IH[OF d(1)] n kv
    by (auto simp: incr_at valueAt_def split: option.splits)
qed

lemma analyzeCommandPattern_at:
  "analyzeCommandPattern cmd patterns k =
     (if matchesPattern k cmd then Some (valueAt patterns k + 1) else patterns k)"
proof -
  have "distinct (map fst patternMap)" by (simp add: patternMap_def)
  then show ?thesis
    by (simp add: analyzeCommandPattern_def analyzeCommandPatternLoop_at matchesPattern_def)
qed

lemma analyzeEntries_timeOfDay:
  "timeOfDay (analyzeEntries h entries t) hour =
     counted (\<lambda>entry hr. Hour (Timestamp entry) = hr) entries (timeOfDay t) hour"
proof (induction entries arbitrary: t)
  case Nil
  then show ?case by (simp add: counted_Nil)
next
  case (Cons entry rest)
  show ?case
    by (simp add: Let_def Cons.IH) (rule counted_Cons, auto simp: incr_at)
qed

lemma analyzeEntries_langUsage:
  assumes "distinct (installedLangs h)"
  shows "langUsage (analyzeEntries h entries t) k =
     counted (\<lambda>entry lang. lang \<in> set (installedLangs h) \<and> mentions (Command entry) lang)
       entries (langUsage t) k"
proof (induction entries arbitrary: t)
  case Nil
  then show ?case by (simp add: counted_Nil)
next
  case (Cons entry rest)
  show ?case
    by (simp add: Let_def Cons.IH) (rule counted_Cons, simp add: countLangs_at[OF assms])
qed

lemma analyzeEntries_toolUsage:
  "toolUsage (analyzeEntries h entries t) k =
     counted (\<lambda>entry tool. tool \<in> set devTools \<and> HasPrefix (Command entry) tool \<and>
                checkToolInstalled h tool) entries (toolUsage t) k"
proof (induction entries arbitrary: t)
  case Nil
  then show ?case by (simp add: counted_Nil)
next
  case (Cons entry rest)
  have d: "distinct devTools" by (simp add: devTools_def)
  show ?case
    by (simp add: Let_def Cons.IH) (rule counted_Cons, simp add: countTools_at[OF d])
qed

lemma analyzeEntries_commandPatterns:
  "commandPatterns (analyzeEntries h entries t) k =
     counted (\<lambda>entry pattern. matchesPattern pattern (Command entry)) entries (commandPatterns t) k"
proof (induction entries arbitrary: t)
  case Nil
  then show ?case by (simp add: counted_Nil)
next
  case (Cons entry rest)
  show ?case
    by (simp add: Let_def Cons.IH) (rule counted_Cons, simp add: analyzeCommandPattern_at)
qed

text \<open>
  The four tallies of \<^verbatim>\<open>analyzeCommands\<close>, each key with its count; a key that was never
  incremented is not in the map.
\<close>

lemma tally_timeOfDay:
  "timeOfDay (analyzeEntries h entries emptyTally) hour =
     (if bucket entries hour = 0 then None else Some (bucket entries hour))"
  by (simp add: analyzeEntries_timeOfDay emptyTally_def counted_empty bucket_def)

lemma tally_langUsage:
  "distinct (installedLangs h) \<Longrightarrow>
   langUsage (analyzeEntries h entries emptyTally) lang =
     (if langCount h entries lang = 0 then None else Some (langCount h entries lang))"
  by (simp add: analyzeEntries_langUsage emptyTally_def counted_empty langCount_def)

lemma tally_toolUsage:
  "toolUsage (analyzeEntries h entries emptyTally) tool =
     (if toolCount h entries tool = 0 then None else Some (toolCount h entries tool))"
  by (simp add: analyzeEntries_toolUsage emptyTally_def counted_empty toolCount_def)

lemma tally_commandPatterns:
  "commandPatterns (analyzeEntries h entries emptyTally) pattern =
     (if matchCount entries pattern = 0 then None else Some (matchCount entries pattern))"
  by (simp add: analyzeEntries_commandPatterns emptyTally_def counted_empty matchCount_def)

lemma counts_le:
  "langCount h entries lang \<le> length entries" "toolCount h entries tool \<le> length entries"
  "bucket entries hour \<le> length entries" "matchCount entries pattern \<le> length entries"
  by (simp_all add: langCount_def toolCount_def bucket_def matchCount_def)

lemma tally_dom: "dom (timeOfDay (analyzeEntries h entries emptyTally)) = {hour. 0 < bucket entries hour}"
  by (auto simp: tally_timeOfDay dom_def)

lemma tally_valueAt: "valueAt (timeOfDay (analyzeEntries h entries emptyTally)) hour = bucket entries hour"
  by (simp add: tally_timeOfDay valueAt_def)

lemma tally_patterns_valueAt:
  "valueAt (commandPatterns (analyzeEntries h entries emptyTally)) pattern = matchCount entries pattern"
  by (simp add: tally_commandPatterns valueAt_def)

lemma langCount_commands:
  "langCount h entries lang =
     length (filter (\<lambda>cmd. lang \<in> set (installedLangs h) \<and> mentions cmd lang) (map Command entries))"
  by (simp add: langCount_def filter_map o_def)

lemma toolCount_commands:
  "toolCount h entries tool =
     length (filter (\<lambda>cmd. tool \<in> set devTools \<and> HasPrefix cmd tool \<and> checkToolInstalled h tool)
       (map Command entries))"
  by (simp add: toolCount_def filter_map o_def)

lemma analyzeToolUsageLoop_Languages:
  assumes "distinct (installedLangs h)"
  shows "Languages (analyzeToolUsageLoop h entries tu) k =
     counted (\<lambda>entry lang. lang \<in> set (installedLangs h) \<and> mentions (Command entry) lang)
       entries (Languages tu) k"
proof (induction entries arbitrary: tu)
  case Nil
  then show ?case by (simp add: counted_Nil)
next
  case (Cons e es)
  show ?case
    unfolding analyzeToolUsageLoop.simps Let_def Cons.IH
    by (rule counted_Cons) (simp add: countLangs_at[OF assms])
qed

lemma analyzeToolUsage_Languages:
  "distinct (installedLangs h) \<Longrightarrow>
   Languages (analyzeToolUsage h entries) lang =
     (if langCount h entries lang = 0 then None else Some (langCount h entries lang))"
  by (simp add: analyzeToolUsage_def analyzeToolUsageLoop_Languages counted_empty langCount_def)

text \<open>
  What \<^verbatim>\<open>analyzeCommands\<close> writes to the fields of the insights.
\<close>

lemma analyzeCommands_PeakHours:
  "PeakHours (Patterns (Insights (analyzeCommands h entries data))) =
     getPeakHours h (timeOfDay (analyzeEntries h entries emptyTally))"
  by (simp add: analyzeCommands_def Let_def split: prod.splits)

lemma analyzeCommands_Productivity:
  "Productivity (Patterns (Insights (analyzeCommands h entries data))) =
     calculateProductivityMetrics entries (commandPatterns (analyzeEntries h entries emptyTally))"
  by (simp add: analyzeCommands_def Let_def split: prod.splits)

lemma analyzeCommands_Proficiency:
  "Proficiency (TechnicalProfile (Insights (analyzeCommands h entries data))) =
     (if length entries > 0
      then Proficiency (TechnicalProfile (Insights data))
             ++ scores (length entries) (langUsage (analyzeEntries h entries emptyTally))
             ++ scores (length entries) (toolUsage (analyzeEntries h entries emptyTally))
      else Proficiency (TechnicalProfile (Insights data)))"
  by (simp add: analyzeCommands_def Let_def split: prod.splits)

lemma analyzeCommands_PrimaryRole:
  "PrimaryRole (TechnicalProfile (Insights (analyzeCommands h entries data))) =
     (case getMostUsed (rangeMap (usageOrder h) (langUsage (analyzeEntries h entries emptyTally))) of
        (primaryLang, ok) \<Rightarrow>
          if ok then Title primaryLang @ '' Developer''
          else PrimaryRole (TechnicalProfile (Insights data)))"
  by (simp add: analyzeCommands_def Let_def split: prod.splits)


section \<open>Properties of the peak hours\<close>

lemma mset_siftLeft: "mset (siftLeft lessFn x ys) = add_mset x (mset ys)"
  by (induction ys) auto

lemma set_siftLeft: "set (siftLeft lessFn x ys) = insert x (set ys)"
  by (simp add: mset_siftLeft flip: set_mset_mset)

lemma sorted_siftLeft:
  "sorted_wrt (\<lambda>a b. snd a \<le> snd b) ys \<Longrightarrow>
     sorted_wrt (\<lambda>a b. snd a \<le> snd b) (siftLeft moreFrequent x ys)"
  by (induction ys) (auto simp: set_siftLeft moreFrequent_def)

lemma mset_insertionLoop: "mset (insertionLoop lessFn left rest) = mset left + mset rest"
  by (induction rest arbitrary: left) (auto simp: mset_siftLeft)

lemma sorted_insertionLoop:
  "sorted_wrt (\<lambda>a b. snd a \<le> snd b) left \<Longrightarrow>
     sorted_wrt (\<lambda>a b. snd b \<le> snd a) (insertionLoop moreFrequent left rest)"
proof (induction rest arbitrary: left)
  case Nil
  then show ?case by (simp add: sorted_wrt_rev)
next
  case (Cons x rest)
  then show ?case by (simp add: sorted_siftLeft)
qed

lemma sortSlice_sorts:
  assumes "sortsByCount pdq"
  shows "mset (sortSlice pdq moreFrequent hours) = mset hours"
    and "sorted_wrt (\<lambda>a b. snd b \<le> snd a) (sortSlice pdq moreFrequent hours)"
  using assms
  by (auto simp: sortSlice_def sortsByCount_def insertionSortLessFunc_def mset_insertionLoop
      sorted_insertionLoop)

lemma insertionSort_sortsByCount: "sortsByCount (insertionSortLessFunc moreFrequent)"
  by (simp add: sortsByCount_def insertionSortLessFunc_def mset_insertionLoop sorted_insertionLoop)

lemma rangeMap_dom: "enumerates order m \<Longrightarrow> set (map fst (rangeMap order m)) = dom m"
  by (auto simp: rangeMap_keys enumerates_def dom_def)

lemma rangeMap_length: "enumerates order m \<Longrightarrow> length (rangeMap order m) = card (dom m)"
proof -
  assume e: "enumerates order m"
  then have "distinct (map fst (rangeMap order m))" by (simp add: rangeMap_distinct enumerates_def)
  then have "card (set (map fst (rangeMap order m))) = length (map fst (rangeMap order m))"
    by (rule distinct_card)
  with rangeMap_dom[OF e] show ?thesis by simp
qed

lemma rangeMap_mset:
  assumes "enumerates order1 m" "enumerates order2 m"
  shows "mset (rangeMap order1 m) = mset (rangeMap order2 m)"
proof -
  have "distinct (rangeMap order1 m)" "distinct (rangeMap order2 m)"
    using assms rangeMap_distinct distinct_map unfolding enumerates_def by blast+
  moreover have "set (rangeMap order1 m) = set (rangeMap order2 m)"
    using assms by (simp add: rangeMap_enumerates)
  ultimately show ?thesis by (simp add: set_eq_iff_mset_eq_distinct)
qed

lemma getPeakHours_ranked: "getPeakHours h tod = map fst (take 3 (rankedHours h tod))"
  by (simp add: getPeakHours_def rankedHours_def Let_def)

lemma rankedHours_mset:
  "sortsByCount (pdqsort h) \<Longrightarrow> mset (rankedHours h tod) = mset (rangeMap (hourOrder h) tod)"
  unfolding rankedHours_def by (rule sortSlice_sorts(1))

lemma rankedHours_sorted:
  "sortsByCount (pdqsort h) \<Longrightarrow> sorted_wrt (\<lambda>a b. snd b \<le> snd a) (rankedHours h tod)"
  unfolding rankedHours_def by (rule sortSlice_sorts(2))

lemma rankedHours_set:
  assumes "sortsByCount (pdqsort h)" "enumerates (hourOrder h) tod"
  shows "set (rankedHours h tod) = {(k, v). tod k = Some v}"
proof -
  have "set (rankedHours h tod) = set (rangeMap (hourOrder h) tod)"
    using rankedHours_mset[OF assms(1)] by (rule mset_eq_setD)
  then show ?thesis by (simp add: rangeMap_enumerates[OF assms(2)])
qed

lemma rankedHours_distinct:
  assumes "sortsByCount (pdqsort h)" "enumerates (hourOrder h) tod"
  shows "distinct (map fst (rankedHours h tod))"
proof -
  have "mset (map fst (rankedHours h tod)) = mset (map fst (rangeMap (hourOrder h) tod))"
    using rankedHours_mset[OF assms(1)] by simp
  moreover have "distinct (map fst (rangeMap (hourOrder h) tod))"
    using assms(2) by (simp add: rangeMap_distinct enumerates_def)
  ultimately show ?thesis by (rule iffD2[OF mset_eq_imp_distinct_iff])
qed

lemma rankedHours_length:
  assumes "sortsByCount (pdqsort h)" "enumerates (hourOrder h) tod"
  shows "length (rankedHours h tod) = card (dom tod)"
proof -
  have "length (rankedHours h tod) = length (rangeMap (hourOrder h) tod)"
    using rankedHours_mset[OF assms(1)] by (rule mset_eq_length)
  then show ?thesis by (simp add: rangeMap_length[OF assms(2)])
qed

lemma getPeakHours_top:
  assumes "sortsByCount (pdqsort h)" "enumerates (hourOrder h) tod"
  shows "length (getPeakHours h tod) = min 3 (card (dom tod))"
    and "distinct (getPeakHours h tod)"
    and "set (getPeakHours h tod) \<subseteq> dom tod"
    and "sorted_wrt (\<lambda>a b. valueAt tod b \<le> valueAt tod a) (getPeakHours h tod)"
    and "\<forall>p\<in>set (getPeakHours h tod). \<forall>x\<in>dom tod - set (getPeakHours h tod).
           valueAt tod x \<le> valueAt tod p"
proof -
  let ?ranked = "rankedHours h tod"
  note r = getPeakHours_ranked[of h tod]
  note s = rankedHours_set[OF assms]
  note d = rankedHours_distinct[OF assms]
  note o = rankedHours_sorted[OF assms(1), of tod]
  note l = rankedHours_length[OF assms]
  have v: "\<And>a. a \<in> set ?ranked \<Longrightarrow> valueAt tod (fst a) = snd a"
    using s by (auto simp: valueAt_def)
  show "length (getPeakHours h tod) = min 3 (card (dom tod))"
    using r l by simp
  show dp: "distinct (getPeakHours h tod)"
    unfolding r using d by (metis distinct_take take_map)
  show "set (getPeakHours h tod) \<subseteq> dom tod"
  proof
    fix x assume "x \<in> set (getPeakHours h tod)"
    then obtain a where "a \<in> set (take 3 ?ranked)" "x = fst a" unfolding r by auto
    then have "a \<in> set ?ranked" by (meson in_set_takeD)
    with s \<open>x = fst a\<close> show "x \<in> dom tod" by auto
  qed
  have o': "sorted_wrt (\<lambda>a b. valueAt tod (fst b) \<le> valueAt tod (fst a)) ?ranked"
    by (rule sorted_wrt_mono_rel[OF _ o]) (simp add: v)
  then have "sorted_wrt (\<lambda>a b. valueAt tod (fst b) \<le> valueAt tod (fst a)) (take 3 ?ranked)"
    by (rule sorted_wrt_take)
  then show "sorted_wrt (\<lambda>a b. valueAt tod b \<le> valueAt tod a) (getPeakHours h tod)"
    unfolding r by (simp add: sorted_wrt_map)
  show "\<forall>p\<in>set (getPeakHours h tod). \<forall>x\<in>dom tod - set (getPeakHours h tod).
           valueAt tod x \<le> valueAt tod p"
  proof (intro ballI)
    fix p x assume p: "p \<in> set (getPeakHours h tod)"
      and x: "x \<in> dom tod - set (getPeakHours h tod)"
    from p obtain a where a: "a \<in> set (take 3 ?ranked)" "p = fst a" unfolding r by auto
    from x obtain vx where "tod x = Some vx" by auto
    then have "(x, vx) \<in> set ?ranked" using s by simp
    moreover have "(x, vx) \<notin> set (take 3 ?ranked)"
    proof
      assume "(x, vx) \<in> set (take 3 ?ranked)"
      then have "fst (x, vx) \<in> fst ` set (take 3 ?ranked)" by (rule imageI)
      then have "x \<in> set (getPeakHours h tod)" unfolding r by simp
      with x show False by simp
    qed
    ultimately have b: "(x, vx) \<in> set (drop 3 ?ranked)"
      by (metis Un_iff append_take_drop_id set_append)
    have "sorted_wrt (\<lambda>a b. valueAt tod (fst b) \<le> valueAt tod (fst a)) (take 3 ?ranked @ drop 3 ?ranked)"
      using o' by simp
    then have "\<forall>u\<in>set (take 3 ?ranked). \<forall>w\<in>set (drop 3 ?ranked).
        valueAt tod (fst w) \<le> valueAt tod (fst u)"
      unfolding sorted_wrt_append by (rule conjunct2[THEN conjunct2])
    then have "\<forall>w\<in>set (drop 3 ?ranked). valueAt tod (fst w) \<le> valueAt tod (fst a)"
      using a(1) by (rule bspec)
    then have "valueAt tod (fst (x, vx)) \<le> valueAt tod (fst a)"
      using b by (rule bspec)
    then show "valueAt tod x \<le> valueAt tod p" using a(2) by simp
  qed
qed

text \<open>
  A list sorted by descending counts is determined by its elements when no two of them have
  the same count.
\<close>

lemma sorted_by_count_unique:
  assumes "mset xs = mset ys"
    and "sorted_wrt (\<lambda>a b. snd b \<le> snd a) xs" "sorted_wrt (\<lambda>a b. snd b \<le> snd a) ys"
    and "inj_on snd (set xs)"
  shows "xs = (ys :: (int \<times> nat) list)"
proof -
  have se: "set xs = set ys" using assms(1) by (metis set_mset_mset)
  have d: "distinct xs \<longleftrightarrow> distinct ys" using assms(1) by (metis mset_eq_imp_distinct_iff)
  have l: "length xs = length ys" using assms(1) by (metis size_mset)
  have mm: "mset (map snd xs) = mset (map snd ys)" using assms(1) by (metis mset_map)
  have "sorted (rev (map snd xs))" "sorted (rev (map snd ys))"
    using assms(2,3) by (simp_all add: sorted_wrt_rev sorted_wrt_map flip: rev_map)
  then have "rev (map snd xs) = rev (map snd ys)"
    using mm by (metis mset_rev properties_for_sort)
  then have "map snd xs = map snd ys" by simp
  moreover have "inj_on snd (set xs \<union> set ys)" using assms(4) se by simp
  ultimately show ?thesis by (simp add: inj_on_map_eq_map)
qed

lemma getPeakHours_deterministic:
  assumes "sortsByCount (pdqsort h1)" "enumerates (hourOrder h1) tod"
    and "sortsByCount (pdqsort h2)" "enumerates (hourOrder h2) tod"
    and "inj_on (valueAt tod) (dom tod)"
  shows "getPeakHours h1 tod = getPeakHours h2 tod"
proof -
  let ?r1 = "rankedHours h1 tod" and ?r2 = "rankedHours h2 tod"
  have m: "mset ?r1 = mset ?r2"
    using rankedHours_mset[OF assms(1), of tod] rankedHours_mset[OF assms(3), of tod]
      rangeMap_mset[OF assms(2,4)] by simp
  have "inj_on snd (set ?r1)"
  proof (rule inj_onI)
    fix a b assume ab: "a \<in> set ?r1" "b \<in> set ?r1" "snd a = snd b"
    then have t: "tod (fst a) = Some (snd a)" "tod (fst b) = Some (snd b)"
      using rankedHours_set[OF assms(1,2)] by auto
    then have "valueAt tod (fst a) = valueAt tod (fst b)" using ab(3) by (simp add: valueAt_def)
    with assms(5) t have "fst a = fst b" by (meson domI inj_onD)
    with ab(3) show "a = b" by (simp add: prod_eq_iff)
  qed
  from sorted_by_count_unique[OF m rankedHours_sorted[OF assms(1)] rankedHours_sorted[OF assms(3)] this]
  show ?thesis by (simp add: getPeakHours_ranked)
qed

lemma Hour_range: "0 \<le> Hour t \<and> Hour t < 24"
  by (simp add: Hour_def)

lemma Hour_listed: "Hour t \<in> set (map int [0..<24])"
proof -
  have "0 \<le> Hour t" "Hour t < 24" using Hour_range by auto
  then have "nat (Hour t) \<in> {0..<24}" "int (nat (Hour t)) = Hour t" by auto
  then show ?thesis by (metis image_eqI set_map set_upt)
qed

lemma tally_hours_enumerated:
  "enumerates (map int [0..<24]) (timeOfDay (analyzeEntries h entries emptyTally))"
proof -
  have "dom (timeOfDay (analyzeEntries h entries emptyTally)) \<subseteq> set (map int [0..<24])"
  proof
    fix hr assume "hr \<in> dom (timeOfDay (analyzeEntries h entries emptyTally))"
    then have "bucket entries hr \<noteq> 0" by (auto simp: tally_timeOfDay split: if_splits)
    then obtain e :: CommandEntry where "Hour (Timestamp e) = hr"
      by (auto simp: bucket_def filter_empty_conv)
    then have "0 \<le> hr" "hr < 24" using Hour_range by auto
    then have "hr = int (nat hr)" "nat hr < 24" by simp_all
    then show "hr \<in> set (map int [0..<24])"
      by (metis atLeastLessThan_iff image_eqI list.set_map set_upt zero_le)
  qed
  moreover have "distinct (map int [0..<24])" by (simp add: distinct_map)
  ultimately show ?thesis by (simp only: enumerates_def simp_thms)
qed

lemma hours_enumerated:
  assumes "distinct (hourOrder h)" "\<forall>entry\<in>set entries. Hour (Timestamp entry) \<in> set (hourOrder h)"
  shows "enumerates (hourOrder h) (timeOfDay (analyzeEntries h entries emptyTally))"
proof -
  have "{hour. 0 < bucket entries hour} \<subseteq> set (hourOrder h)"
  proof
    fix hr assume "hr \<in> {hour. 0 < bucket entries hour}"
    then have "filter (\<lambda>entry. Hour (Timestamp entry) = hr) entries \<noteq> []"
      by (simp add: bucket_def)
    then obtain e where "e \<in> set entries" "Hour (Timestamp e) = hr"
      by (auto simp: filter_empty_conv)
    with assms(2) show "hr \<in> set (hourOrder h)" by blast
  qed
  with assms(1) show ?thesis by (simp add: enumerates_def tally_dom)
qed

text \<open>
  The peak hours of the examples.
\<close>

lemma exampleHost_sorts: "sortsByCount (pdqsort exampleHost)"
  by (simp add: exampleHost_def insertionSort_sortsByCount)

lemma exampleHost_hours: "hourOrder exampleHost = map int [0..<24]"
  by (simp add: exampleHost_def)

lemma busy_bucket:
  "bucket busyEntries hour = (if hour = 5 then 2 else if hour = 3 then 1 else 0)"
  by (simp add: bucket_def busyEntries_def commandAt_def Hour_def)

lemma busy_tally: "timeOfDay (analyzeEntries h busyEntries emptyTally) = [3 \<mapsto> 1, 5 \<mapsto> 2]"
  unfolding tally_timeOfDay busy_bucket by (rule ext) simp

lemma busy_peaks:
  assumes "filter (\<lambda>hour. hour = 3 \<or> hour = 5) (hourOrder h) = [3, 5] \<or>
           filter (\<lambda>hour. hour = 3 \<or> hour = 5) (hourOrder h) = [5, 3]"
  shows "PeakHours (Patterns (Insights (analyzeCommands h busyEntries data))) = [5, 3]"
proof -
  have "map fst (rangeMap (hourOrder h) [3 \<mapsto> 1, 5 \<mapsto> (2::nat)]) =
      filter (\<lambda>hour. hour = 3 \<or> hour = 5) (hourOrder h)"
    unfolding rangeMap_keys by (rule filter_cong) auto
  moreover have "\<forall>(k, v)\<in>set (rangeMap (hourOrder h) [3 \<mapsto> 1, 5 \<mapsto> (2::nat)]).
      v = (if k = 5 then 2 else 1)"
    by (auto simp: rangeMap_set split: if_splits)
  ultimately have "rangeMap (hourOrder h) [3 \<mapsto> 1, 5 \<mapsto> (2::nat)] = [(3, 1), (5, 2)] \<or>
      rangeMap (hourOrder h) [3 \<mapsto> 1, 5 \<mapsto> (2::nat)] = [(5, 2), (3, 1)]"
    using assms by (cases "rangeMap (hourOrder h) [3 \<mapsto> 1, 5 \<mapsto> (2::nat)]") (auto simp: Cons_eq_map_conv)
  then show ?thesis
    by (auto simp: analyzeCommands_PeakHours busy_tally getPeakHours_def sortSlice_def
      insertionSortLessFunc_def moreFrequent_def)
qed

lemma busy_peaks_example:
  "PeakHours (Patterns (Insights (analyzeCommands exampleHost busyEntries InitShellData))) = [5, 3]"
  by (rule busy_peaks) (simp add: exampleHost_hours upt_rec)

lemma tie_tally:
  "timeOfDay (analyzeEntries tieHost tieEntries emptyTally) = [5 \<mapsto> 1, 3 \<mapsto> 1]"
  unfolding tally_timeOfDay
  by (rule ext) (simp add: bucket_def tieEntries_def commandAt_def Hour_def)

lemma tie_peaks:
  "PeakHours (Patterns (Insights (analyzeCommands tieHost tieEntries InitShellData))) = [5, 3]"
proof -
  have "hourOrder tieHost = [5, 3]" by (simp add: tieHost_def)
  then show ?thesis
    by (simp add: analyzeCommands_PeakHours tie_tally getPeakHours_def rangeMap_def sortSlice_def
      insertionSortLessFunc_def moreFrequent_def List.map_filter_simps)
qed

lemma tie_peaks_swapped:
  "PeakHours (Patterns (Insights
     (analyzeCommands (tieHost\<lparr>hourOrder := [3, 5]\<rparr>) tieEntries InitShellData))) = [3, 5]"
proof -
  have "timeOfDay (analyzeEntries (tieHost\<lparr>hourOrder := [3, 5]\<rparr>) tieEntries emptyTally) =
      [5 \<mapsto> 1, 3 \<mapsto> 1]"
    unfolding tally_timeOfDay
    by (rule ext) (simp add: bucket_def tieEntries_def commandAt_def Hour_def)
  then show ?thesis
    by (simp add: analyzeCommands_PeakHours getPeakHours_def rangeMap_def sortSlice_def
      insertionSortLessFunc_def moreFrequent_def List.map_filter_simps)
qed

text \<open>
  Claim C4. Every entry is counted under the hour of its timestamp. When \<^verbatim>\<open>range\<close> visits
  each hour once and the sort keeps its promise, the peak hours are the 3 hours with the
  most entries, or all the hours with an entry when they are fewer: they are distinct, each
  has an entry, their counts descend, and no hour left out has more entries than one that
  was taken. The comparison looks at the counts alone: two hours with the same count stand
  in the order in which the enumeration of the map and the sort leave them, not in the
  order of their values.
\<close>

theorem peak_hours_top_three:
  assumes "sortsByCount (pdqsort h)" and "distinct (hourOrder h)"
    and "\<forall>entry\<in>set entries. Hour (Timestamp entry) \<in> set (hourOrder h)"
  shows "timeOfDay (analyzeEntries h entries emptyTally) hour =
           (if bucket entries hour = 0 then None else Some (bucket entries hour)) \<and>
         length (PeakHours (Patterns (Insights (analyzeCommands h entries data)))) =
           min 3 (card {hour. 0 < bucket entries hour}) \<and>
         distinct (PeakHours (Patterns (Insights (analyzeCommands h entries data)))) \<and>
         (\<forall>p\<in>set (PeakHours (Patterns (Insights (analyzeCommands h entries data)))).
            0 < bucket entries p) \<and>
         sorted_wrt (\<lambda>a b. bucket entries b \<le> bucket entries a)
           (PeakHours (Patterns (Insights (analyzeCommands h entries data)))) \<and>
         (\<forall>p\<in>set (PeakHours (Patterns (Insights (analyzeCommands h entries data)))).
            \<forall>x. x \<notin> set (PeakHours (Patterns (Insights (analyzeCommands h entries data)))) \<longrightarrow>
              bucket entries x \<le> bucket entries p)"
proof -
  let ?tod = "timeOfDay (analyzeEntries h entries emptyTally)"
  let ?peaks = "PeakHours (Patterns (Insights (analyzeCommands h entries data)))"
  have p: "?peaks = getPeakHours h ?tod" by (rule analyzeCommands_PeakHours)
  have e: "enumerates (hourOrder h) ?tod" by (rule hours_enumerated[OF assms(2,3)])
  note top = getPeakHours_top[OF assms(1) e]
  have 1: "length ?peaks = min 3 (card {hour. 0 < bucket entries hour})"
    using top(1) by (simp add: p tally_dom)
  have 2: "distinct ?peaks" using top(2) by (simp add: p)
  have 3: "\<forall>q\<in>set ?peaks. 0 < bucket entries q"
    using top(3) by (auto simp: p tally_dom)
  have 4: "sorted_wrt (\<lambda>a b. bucket entries b \<le> bucket entries a) ?peaks"
    using top(4) by (simp add: p tally_valueAt)
  have 5: "\<forall>q\<in>set ?peaks. \<forall>x. x \<notin> set ?peaks \<longrightarrow> bucket entries x \<le> bucket entries q"
  proof (intro ballI allI impI)
    fix q x assume q: "q \<in> set ?peaks" and x: "x \<notin> set ?peaks"
    show "bucket entries x \<le> bucket entries q"
    proof (cases "bucket entries x = 0")
      case True
      then show ?thesis by simp
    next
      case False
      then have "x \<in> dom ?tod - set (getPeakHours h ?tod)"
        using x by (simp add: p tally_dom)
      moreover have "q \<in> set (getPeakHours h ?tod)" using q by (simp add: p)
      ultimately have "valueAt ?tod x \<le> valueAt ?tod q" using top(5) by blast
      then show ?thesis by (simp add: tally_valueAt)
    qed
  qed
  from tally_timeOfDay[of h entries hour] 1 2 3 4 5 show ?thesis by blast
qed

text \<open>
  On the host of the examples the three entries give the peak hours 5 and 3.
\<close>

theorem peak_hours_top_three_witness:
  "sortsByCount (pdqsort exampleHost) \<and> distinct (hourOrder exampleHost) \<and>
   PeakHours (Patterns (Insights (analyzeCommands exampleHost busyEntries InitShellData))) = [5, 3] \<and>
   bucket busyEntries 5 = 2 \<and> bucket busyEntries 3 = 1 \<and>
   card {hour. 0 < bucket busyEntries hour} = 2"
proof -
  have d: "distinct (hourOrder exampleHost)"
    by (simp add: exampleHost_hours distinct_map inj_on_def)
  have e: "\<forall>entry\<in>set busyEntries. Hour (Timestamp entry) \<in> set (hourOrder exampleHost)"
    unfolding exampleHost_hours using Hour_listed by blast
  from peak_hours_top_three[OF exampleHost_sorts d e, of 5 InitShellData]
  have "length (PeakHours (Patterns (Insights (analyzeCommands exampleHost busyEntries InitShellData)))) =
      min 3 (card {hour. 0 < bucket busyEntries hour})"
    by blast
  then have "card {hour. 0 < bucket busyEntries hour} = 2"
    by (simp add: busy_peaks_example)
  with d show ?thesis
    by (simp add: exampleHost_sorts busy_peaks_example busy_bucket)
qed

text \<open>
  Hours 5 and 3 have one entry each. When the map is visited with hour 5 first, hour 5 is
  the first peak hour: the higher of two hours with equal counts comes first.
\<close>

theorem peak_hours_tie_counterexample:
  "PeakHours (Patterns (Insights (analyzeCommands tieHost tieEntries InitShellData))) = [5, 3] \<and>
   bucket tieEntries 5 = bucket tieEntries 3"
  by (simp add: tie_peaks) (simp add: bucket_def tieEntries_def commandAt_def Hour_def)

text \<open>
  Claim C6. Two runs over the same entries give the same peak hours, in whatever order each
  of them visits the hours and whatever its sort does with equal counts, provided no two
  hours with entries have the same number of them.
\<close>

theorem peak_hours_rerun:
  assumes "sortsByCount (pdqsort h1)" and "distinct (hourOrder h1)"
    and "\<forall>entry\<in>set entries. Hour (Timestamp entry) \<in> set (hourOrder h1)"
    and "sortsByCount (pdqsort h2)" and "distinct (hourOrder h2)"
    and "\<forall>entry\<in>set entries. Hour (Timestamp entry) \<in> set (hourOrder h2)"
    and "inj_on (bucket entries) {hour. 0 < bucket entries hour}"
  shows "PeakHours (Patterns (Insights (analyzeCommands h1 entries data1))) =
         PeakHours (Patterns (Insights (analyzeCommands h2 entries data2)))"
proof -
  let ?tod = "timeOfDay (analyzeEntries h1 entries emptyTally)"
  have same: "timeOfDay (analyzeEntries h2 entries emptyTally) = ?tod"
    by (rule ext) (simp add: tally_timeOfDay)
  have e1: "enumerates (hourOrder h1) ?tod" by (rule hours_enumerated[OF assms(2,3)])
  have e2: "enumerates (hourOrder h2) ?tod"
    using hours_enumerated[OF assms(5,6)] same by simp
  have "valueAt ?tod = bucket entries" by (rule ext) (rule tally_valueAt)
  then have i: "inj_on (valueAt ?tod) (dom ?tod)" using assms(7) by (simp add: tally_dom)
  from getPeakHours_deterministic[OF assms(1) e1 assms(4) e2 i]
  show ?thesis by (simp add: analyzeCommands_PeakHours same)
qed

text \<open>
  Visiting the hours upwards or downwards, the three entries give the peak hours 5 and 3.
\<close>

theorem peak_hours_rerun_witness:
  "PeakHours (Patterns (Insights (analyzeCommands exampleHost busyEntries InitShellData))) = [5, 3] \<and>
   PeakHours (Patterns (Insights
     (analyzeCommands (exampleHost\<lparr>hourOrder := rev (map int [0..<24])\<rparr>) busyEntries InitShellData))) =
     [5, 3]"
proof -
  let ?h2 = "exampleHost\<lparr>hourOrder := rev (map int [0..<24])\<rparr>"
  have d1: "distinct (hourOrder exampleHost)"
    by (simp add: exampleHost_hours distinct_map inj_on_def)
  have e1: "\<forall>entry\<in>set busyEntries. Hour (Timestamp entry) \<in> set (hourOrder exampleHost)"
    unfolding exampleHost_hours using Hour_listed by blast
  have s2: "sortsByCount (pdqsort ?h2)" using exampleHost_sorts by simp
  have d2: "distinct (hourOrder ?h2)" by (simp add: distinct_map inj_on_def)
  have e2: "\<forall>entry\<in>set busyEntries. Hour (Timestamp entry) \<in> set (hourOrder ?h2)"
    using Hour_listed by simp
  have i: "inj_on (bucket busyEntries) {hour. 0 < bucket busyEntries hour}"
    by (auto simp: inj_on_def busy_bucket split: if_splits)
  from peak_hours_rerun[OF exampleHost_sorts d1 e1 s2 d2 e2 i, of InitShellData InitShellData]
  show ?thesis by (simp add: busy_peaks_example)
qed

text \<open>
  Two runs over the same two entries, on hosts that differ in nothing but the order in which
  the map of hours is visited, give different peak hours.
\<close>

theorem peak_hours_rerun_counterexample:
  "PeakHours (Patterns (Insights (analyzeCommands tieHost tieEntries InitShellData))) \<noteq>
   PeakHours (Patterns (Insights
     (analyzeCommands (tieHost\<lparr>hourOrder := [3, 5]\<rparr>) tieEntries InitShellData)))"
  by (simp add: tie_peaks tie_peaks_swapped)

section \<open>Properties of the productivity metrics\<close>

lemma uniqueCommandsLoop_set:
  "uniqueCommandsLoop entries uniqueCommands = uniqueCommands \<union> Command ` set entries"
  by (induction entries arbitrary: uniqueCommands) auto

text \<open>
  Claim C5. For a history without entries the map of the metrics is empty. For any other
  history it has the two keys \<^verbatim>\<open>Command Variety\<close> and \<^verbatim>\<open>Workflow Complexity\<close>: the first is
  the number of distinct command texts over the number of entries; the second is the sum,
  over the patterns \<^verbatim>\<open>git_workflow\<close>, \<^verbatim>\<open>build\<close>, \<^verbatim>\<open>deploy\<close> and \<^verbatim>\<open>test\<close>, of the number of
  entries that match the pattern, over the number of entries. With 20 entries and 5 distinct
  command texts \<^verbatim>\<open>Command Variety\<close> is 0.25.
\<close>

theorem productivity_metrics:
  "let metrics = Productivity (Patterns (Insights (analyzeCommands h entries data)));
       totalCommands = length entries
   in (totalCommands = 0 \<longrightarrow> metrics = Map.empty) \<and>
      (0 < totalCommands \<longrightarrow>
         dom metrics = {''Command Variety'', ''Workflow Complexity''} \<and>
         metrics ''Command Variety'' = Some (real (card (Command ` set entries)) / real totalCommands) \<and>
         metrics ''Workflow Complexity'' =
           Some (real (matchCount entries ''git_workflow'' + matchCount entries ''build'' +
                       matchCount entries ''deploy'' + matchCount entries ''test'') / real totalCommands)) \<and>
      (totalCommands = 20 \<and> card (Command ` set entries) = 5 \<longrightarrow>
         metrics ''Command Variety'' = Some 0.25)"
  by (auto simp: Let_def analyzeCommands_Productivity calculateProductivityMetrics_def
      uniqueCommandsLoop_set tally_patterns_valueAt)

text \<open>
  Twenty entries with the commands \<^verbatim>\<open>git\<close>, \<^verbatim>\<open>docker\<close>, \<^verbatim>\<open>npm\<close>, \<^verbatim>\<open>ls\<close> and \<^verbatim>\<open>cd\<close>.
\<close>

theorem productivity_metrics_witness:
  "length twentyLines = 20 \<and> card (Command ` set twentyLines) = 5 \<and>
   Productivity (Patterns (Insights (analyzeCommands exampleHost twentyLines InitShellData)))
     ''Command Variety'' = Some 0.25"
proof -
  have l: "length twentyLines = 20" by (simp add: twentyLines_def)
  have "Command ` set twentyLines = {''git'', ''docker'', ''npm'', ''ls'', ''cd''}"
    by (auto simp: twentyLines_def commandAt_def)
  then have c: "card (Command ` set twentyLines) = 5" by simp
  from productivity_metrics[of exampleHost twentyLines InitShellData] l c
  show ?thesis by (simp add: Let_def)
qed

text \<open>
  For the empty history neither metric is in the map: no 0 is reported for it.
\<close>

theorem productivity_empty_counterexample:
  "Productivity (Patterns (Insights (analyzeCommands exampleHost [] InitShellData)))
     ''Command Variety'' = None \<and>
   Productivity (Patterns (Insights (analyzeCommands exampleHost [] InitShellData)))
     ''Workflow Complexity'' = None"
  by (simp add: analyzeCommands_Productivity calculateProductivityMetrics_def)

section \<open>Properties of the proficiency scores\<close>

lemma score_range: "c \<le> n \<Longrightarrow> 0 \<le> real c / real n \<and> real c / real n \<le> 1"
  by (cases "n = 0") (simp_all add: divide_le_eq_1)

lemma analyzeCommands_Proficiency_at:
  assumes "distinct (installedLangs h)"
  shows "Proficiency (TechnicalProfile (Insights (analyzeCommands h entries data))) name =
      (if 0 < toolCount h entries name
       then Some (real (toolCount h entries name) / real (length entries))
       else if 0 < langCount h entries name
       then Some (real (langCount h entries name) / real (length entries))
       else Proficiency (TechnicalProfile (Insights data)) name)"
  using counts_le(1,2)[of h entries name]
  by (auto simp: analyzeCommands_Proficiency map_add_def scores_def
      tally_langUsage[OF assms] tally_toolUsage)

text \<open>
  Claim C2. The language tally of an identifier is the number of entries that mention it as
  an installed language, its tool tally the number of entries that start with it as an
  installed development tool; neither exceeds the number of entries. Without entries the
  proficiency map stays as it was. Otherwise an identifier with a tool tally has that tally
  over the number of entries as its score; an identifier with a language tally and no tool
  tally has the language tally over the number of entries; every other identifier keeps the
  score it had. A score that was in [0,1] before is in [0,1] after.
\<close>

theorem proficiency_scores:
  assumes "distinct (installedLangs h)"
  shows
    "let before = Proficiency (TechnicalProfile (Insights data));
         proficiency = Proficiency (TechnicalProfile (Insights (analyzeCommands h entries data)));
         totalCommands = length entries
     in langUsage (analyzeEntries h entries emptyTally) name =
          (if langCount h entries name = 0 then None else Some (langCount h entries name)) \<and>
        toolUsage (analyzeEntries h entries emptyTally) name =
          (if toolCount h entries name = 0 then None else Some (toolCount h entries name)) \<and>
        langCount h entries name \<le> totalCommands \<and> toolCount h entries name \<le> totalCommands \<and>
        (totalCommands = 0 \<longrightarrow> proficiency = before) \<and>
        (0 < toolCount h entries name \<longrightarrow>
           proficiency name = Some (real (toolCount h entries name) / real totalCommands)) \<and>
        (toolCount h entries name = 0 \<and> 0 < langCount h entries name \<longrightarrow>
           proficiency name = Some (real (langCount h entries name) / real totalCommands)) \<and>
        (toolCount h entries name = 0 \<and> langCount h entries name = 0 \<longrightarrow>
           proficiency name = before name) \<and>
        ((\<forall>score. before name = Some score \<longrightarrow> 0 \<le> score \<and> score \<le> 1) \<longrightarrow>
         (\<forall>score. proficiency name = Some score \<longrightarrow> 0 \<le> score \<and> score \<le> 1))"
proof -
  let ?n = "length entries"
  let ?t = "analyzeEntries h entries emptyTally"
  let ?before = "Proficiency (TechnicalProfile (Insights data))"
  let ?P = "Proficiency (TechnicalProfile (Insights (analyzeCommands h entries data)))"
  note L = tally_langUsage[OF assms, of entries name]
  note T = tally_toolUsage[of h entries name]
  have le: "langCount h entries name \<le> ?n" "toolCount h entries name \<le> ?n"
    by (rule counts_le)+
  note P = analyzeCommands_Proficiency_at[OF assms, of entries data name]
  have zero: "?n = 0 \<longrightarrow> ?P = ?before" by (simp add: analyzeCommands_Proficiency)
  have range: "(\<forall>score. ?before name = Some score \<longrightarrow> 0 \<le> score \<and> score \<le> 1) \<longrightarrow>
      (\<forall>score. ?P name = Some score \<longrightarrow> 0 \<le> score \<and> score \<le> 1)"
  proof (intro impI allI)
    fix score
    assume b: "\<forall>score. ?before name = Some score \<longrightarrow> 0 \<le> score \<and> score \<le> 1"
      and s: "?P name = Some score"
    show "0 \<le> score \<and> score \<le> 1"
    proof (cases "0 < toolCount h entries name")
      case True
      with s have "score = real (toolCount h entries name) / real ?n" by (simp add: P)
      with score_range[OF le(2)] show ?thesis by simp
    next
      case tool: False
      show ?thesis
      proof (cases "0 < langCount h entries name")
        case True
        with tool s have "score = real (langCount h entries name) / real ?n" by (simp add: P)
        with score_range[OF le(1)] show ?thesis by simp
      next
        case False
        with tool s have "?before name = Some score" by (simp add: P)
        with b show ?thesis by blast
      qed
    qed
  qed
  have tool: "0 < toolCount h entries name \<longrightarrow>
      ?P name = Some (real (toolCount h entries name) / real ?n)"
    by (simp add: P)
  have lang: "toolCount h entries name = 0 \<and> 0 < langCount h entries name \<longrightarrow>
      ?P name = Some (real (langCount h entries name) / real ?n)"
    by (simp add: P)
  have none: "toolCount h entries name = 0 \<and> langCount h entries name = 0 \<longrightarrow>
      ?P name = ?before name"
    by (simp add: P)
  show ?thesis
    unfolding Let_def
    by (intro conjI) (rule L T le zero tool lang none range)+
qed

lemma exampleHost_distinct: "distinct (installedLangs exampleHost)"
  by (simp add: exampleHost_def)

lemma overlap_counts:
  "langCount exampleHost overlapEntries ''git'' = 2"
  "toolCount exampleHost overlapEntries ''git'' = 1"
  "length overlapEntries = 2"
  by (simp_all add: langCount_def toolCount_def mentions_def overlapEntries_def commandAt_def
      exampleHost_def devTools_def checkToolInstalled_def)

text \<open>
  One of two entries starts with \<^verbatim>\<open>git\<close>: its score is 1/2.
\<close>

theorem proficiency_scores_witness:
  "distinct (installedLangs exampleHost) \<and>
   toolCount exampleHost overlapEntries ''git'' = 1 \<and> length overlapEntries = 2 \<and>
   Proficiency (TechnicalProfile (Insights (analyzeCommands exampleHost overlapEntries InitShellData)))
     ''git'' = Some (1 / 2)"
  using proficiency_scores[OF exampleHost_distinct, of InitShellData overlapEntries "''git''"]
  by (simp add: Let_def overlap_counts exampleHost_distinct)

text \<open>
  Both entries count for \<^verbatim>\<open>git\<close> in the language tally, 2 of 2, and its score is 1/2: the
  tool tally has replaced the score of the language tally.
\<close>

theorem proficiency_overlap_counterexample:
  "langUsage (analyzeEntries exampleHost overlapEntries emptyTally) ''git'' = Some 2 \<and>
   length overlapEntries = 2 \<and>
   Proficiency (TechnicalProfile (Insights (analyzeCommands exampleHost overlapEntries InitShellData)))
     ''git'' = Some (1 / 2)"
  by (simp add: tally_langUsage[OF exampleHost_distinct]
      analyzeCommands_Proficiency_at[OF exampleHost_distinct] overlap_counts)

section \<open>The history of three lines\<close>

lemma Contains_Nil: "Contains s [] = True"
  by (cases s) simp_all

lemma git_mentioned: "mentions cmd ''git''"
  by (simp add: mentions_def getPackageManager_def managers_def Contains_Nil)

lemma exampleHost_counts:
  "langCount exampleHost (fst (readHistory exampleHost ''/home/u/.bash_history'')) ''git'' = 3"
  "toolCount exampleHost (fst (readHistory exampleHost ''/home/u/.bash_history'')) ''git'' = 0"
  unfolding langCount_commands toolCount_commands exampleHost_commands
  by (simp_all add: git_mentioned exampleHost_def)

lemma toUpperASCII_g: "toUpperASCII CHR ''g'' = CHR ''G''"
proof -
  have "of_char (CHR ''G'') = (71::nat)" by simp
  then have "char_of (71::nat) = CHR ''G''" by (metis char_of_char)
  then show ?thesis by (simp add: toUpperASCII_def)
qed

text \<open>
  Claim C1. The history of the lines \<^verbatim>\<open>git commit -m "x"\<close>, \<^verbatim>\<open>git commit -m "y"\<close> and
  \<^verbatim>\<open>ls -la\<close> is read without error, with \<^verbatim>\<open>git\<close> installed. The commands stored are the last
  fields of the lines. \<^verbatim>\<open>git\<close> has no package manager, and the empty text is contained in
  every command: each of the 3 entries is counted for \<^verbatim>\<open>git\<close> in the language tally of
  \<^verbatim>\<open>analyzeCommands\<close> and in that of \<^verbatim>\<open>analyzeToolUsage\<close>. No stored command starts with
  \<^verbatim>\<open>git\<close>: the tally of the development tools has no count for it. The primary role is
  \<^verbatim>\<open>Git Developer\<close>.
\<close>

theorem git_scenario_tally:
  "snd (readHistory exampleHost ''/home/u/.bash_history'') = None \<and>
   map Command (fst (readHistory exampleHost ''/home/u/.bash_history'')) =
     [[CHR 0x22, CHR ''x'', CHR 0x22], [CHR 0x22, CHR ''y'', CHR 0x22], ''-la''] \<and>
   langUsage (analyzeEntries exampleHost (fst (readHistory exampleHost ''/home/u/.bash_history''))
     emptyTally) ''git'' = Some 3 \<and>
   toolUsage (analyzeEntries exampleHost (fst (readHistory exampleHost ''/home/u/.bash_history''))
     emptyTally) ''git'' = None \<and>
   Languages (analyzeToolUsage exampleHost (fst (readHistory exampleHost ''/home/u/.bash_history'')))
     ''git'' = Some 3 \<and>
   PrimaryRole (TechnicalProfile (Insights
     (analyzeCommands exampleHost (fst (readHistory exampleHost ''/home/u/.bash_history''))
        InitShellData))) = ''Git Developer''"
proof -
  let ?history = "fst (readHistory exampleHost ''/home/u/.bash_history'')"
  have err: "snd (readHistory exampleHost ''/home/u/.bash_history'') = None"
    by (simp add: readHistory_def exampleHost_def Scan_exampleHistory)
  have lang: "langUsage (analyzeEntries exampleHost ?history emptyTally) ''git'' = Some 3"
    by (simp add: tally_langUsage[OF exampleHost_distinct] exampleHost_counts)
  have tool: "toolUsage (analyzeEntries exampleHost ?history emptyTally) ''git'' = None"
    by (simp add: tally_toolUsage exampleHost_counts)
  have usage: "Languages (analyzeToolUsage exampleHost ?history) ''git'' = Some 3"
    by (simp add: analyzeToolUsage_Languages[OF exampleHost_distinct] exampleHost_counts)
  have "usageOrder exampleHost = [''git'']" by (simp add: exampleHost_def)
  then have role: "PrimaryRole (TechnicalProfile (Insights
      (analyzeCommands exampleHost ?history InitShellData))) = ''Git Developer''"
    by (simp add: analyzeCommands_PrimaryRole rangeMap_def lang getMostUsed_def
        List.map_filter_simps Title_def toUpperASCII_g isWordByte_def)
  from err exampleHost_commands lang tool usage role show ?thesis by simp
qed

section \<open>Properties of the whole run\<close>








end
